theory Spec2Isabelle
  imports Complex_Main "HOL-Library.Multiset" "HOL-Library.Code_Target_Numeral"
begin

section \<open>BatchSched: the scheduling engine (scheduler.js) and the simulation driver\<close>

text \<open>
  A JavaScript number is an IEEE 754 double: NaN, an infinity, or a finite value. The type
  \<open>num\<close> has these four shapes; \<open>Fin x\<close> is the finite number of value \<open>x\<close> (the two zeros
  are one value: the code never divides by zero and never reads the sign of a zero).
  Comparisons and arithmetic on \<open>num\<close> follow the IEEE rules for NaN and the infinities.
  A real \<open>x\<close> is a double when \<open>fl x = Fin x\<close>, where \<open>fl\<close> rounds to the nearest double,
  ties to even, with gradual underflow and overflow to an infinity.

  The arithmetic on job fields and on history values rounds its exact result with \<open>fl\<close>:
  the differences in the two comparators, the sum in \<open>calculateTotalCompute\<close>, and the
  sums, the difference, the square and the divisions in \<open>calculateLoadVariance\<close>.
  The arithmetic on a draw of \<open>Math.random()\<close> (a draw times a count or a bound, under
  \<open>Math.floor\<close>) and the sum of a day and an offset in \<open>generateRandomJobs\<close> are exact.

  Counters that the code only ever increments from a literal are \<^typ>\<open>nat\<close>; loop
  bounds and batch sizes are \<^typ>\<open>int\<close>. The module-level variables \<open>jobPool\<close>,
  \<open>jobIdCounter\<close> (scheduler.js) and \<open>_computeHistory\<close> (simulation.js) are the fields of
  one state record that every operation takes and returns. A thrown \<open>Error\<close> is the \<open>Inl\<close>
  branch of the result, returned together with the state as the throw leaves it.
\<close>

subsection \<open>Numbers\<close>

datatype num = NaN | NegInf | Fin real | PosInf

text \<open>\<open>a < b\<close> and \<open>a <= b\<close>: false as soon as an operand is NaN. \<open>a >= b\<close> is \<open>b <= a\<close>.\<close>

fun js_lt :: "num \<Rightarrow> num \<Rightarrow> bool" where
  "js_lt NaN b = False"
| "js_lt a NaN = False"
| "js_lt (Fin x) (Fin y) = (x < y)"
| "js_lt PosInf b = False"
| "js_lt a NegInf = False"
| "js_lt NegInf b = True"
| "js_lt a PosInf = True"

fun js_le :: "num \<Rightarrow> num \<Rightarrow> bool" where
  "js_le NaN b = False"
| "js_le a NaN = False"
| "js_le (Fin x) (Fin y) = (x \<le> y)"
| "js_le NegInf b = True"
| "js_le a PosInf = True"
| "js_le PosInf b = False"
| "js_le a NegInf = False"

text \<open>\<open>a !== b\<close> on numbers: NaN differs from everything, itself included.\<close>

definition js_ne :: "num \<Rightarrow> num \<Rightarrow> bool" where
  "js_ne a b = (a = NaN \<or> b = NaN \<or> a \<noteq> b)"

text \<open>The exact sum and difference, before rounding.\<close>

fun js_add :: "num \<Rightarrow> num \<Rightarrow> num" where
  "js_add NaN b = NaN"
| "js_add a NaN = NaN"
| "js_add (Fin x) (Fin y) = Fin (x + y)"
| "js_add PosInf NegInf = NaN"
| "js_add NegInf PosInf = NaN"
| "js_add PosInf b = PosInf"
| "js_add a PosInf = PosInf"
| "js_add NegInf b = NegInf"
| "js_add a NegInf = NegInf"

fun js_sub :: "num \<Rightarrow> num \<Rightarrow> num" where
  "js_sub NaN b = NaN"
| "js_sub a NaN = NaN"
| "js_sub (Fin x) (Fin y) = Fin (x - y)"
| "js_sub PosInf PosInf = NaN"
| "js_sub NegInf NegInf = NaN"
| "js_sub PosInf b = PosInf"
| "js_sub a NegInf = PosInf"
| "js_sub NegInf b = NegInf"
| "js_sub a PosInf = NegInf"

text \<open>The exact square, and the exact quotient by a positive count.\<close>

fun js_sq :: "num \<Rightarrow> num" where
  "js_sq NaN = NaN"
| "js_sq (Fin x) = Fin (x ^ 2)"
| "js_sq NegInf = PosInf"
| "js_sq PosInf = PosInf"

fun js_div_count :: "num \<Rightarrow> nat \<Rightarrow> num" where
  "js_div_count (Fin x) n = Fin (x / real n)"
| "js_div_count a n = a"

text \<open>
  Rounding to the nearest double. A finite double is \<open>m * 2^e\<close> with \<open>|m| < 2^53\<close> and
  \<open>-1074 \<le> e \<le> 971\<close>. \<open>fl x\<close> scales \<open>x\<close> by \<open>2^1074\<close>, drops the \<open>s\<close> low bits that do not
  fit a 53-bit significand, rounds the significand to the nearest integer (a tie to the
  even one) and scales back; a result of magnitude \<open>2^1024\<close> or more is an infinity.
\<close>

definition round_even :: "real \<Rightarrow> int" where
  "round_even r =
     (let f = \<lfloor>r\<rfloor>
      in if r - of_int f < 1 / 2 then f
         else if 1 / 2 < r - of_int f then f + 1
         else if even f then f else f + 1)"

function drop_bits :: "nat \<Rightarrow> nat" where
  "drop_bits n = (if n < 2 ^ 53 then 0 else Suc (drop_bits (n div 2)))"
  by pat_completeness auto
termination
  by (relation "measure (\<lambda>n. n)") auto

declare drop_bits.simps [simp del]

definition fl :: "real \<Rightarrow> num" where
  "fl x =
     (let X = x * 2 ^ 1074;
          s = drop_bits (nat \<lfloor>\<bar>X\<bar>\<rfloor>);
          m = round_even (X / 2 ^ s)
      in if 2 ^ 2098 \<le> \<bar>m\<bar> * 2 ^ s then (if 0 < x then PosInf else NegInf)
         else Fin (of_int m * 2 ^ s / 2 ^ 1074))"

fun fl_num :: "num \<Rightarrow> num" where
  "fl_num (Fin x) = fl x"
| "fl_num a = a"

definition is_double :: "real \<Rightarrow> bool" where
  "is_double x = (fl x = Fin x)"

text \<open>A number other than NaN: an infinity or a finite double.\<close>

fun is_number :: "num \<Rightarrow> bool" where
  "is_number NaN = False"
| "is_number (Fin x) = is_double x"
| "is_number a = True"

text \<open>\<open>Math.round\<close>: the nearest integer, a tie going up; NaN and the infinities as they are.\<close>

fun Math_round :: "num \<Rightarrow> num" where
  "Math_round (Fin x) = Fin (of_int \<lfloor>x + 1 / 2\<rfloor>)"
| "Math_round a = a"

text \<open>
  \<open>Math.pow(a, 2)\<close>. The language leaves the accuracy of \<open>Math.pow\<close> to the engine; it is
  taken as the correctly rounded square (the value of \<open>a * a\<close>), which is the exact
  square whenever that is a double.
\<close>

definition Math_pow2 :: "num \<Rightarrow> num" where
  "Math_pow2 a = fl_num (js_sq a)"

subsection \<open>Data\<close>

record job =
  job_id :: nat
  compute :: num
  deadline :: num
  addedDay :: num

text \<open>
  The three \<open>throw new Error(...)\<close> sites of scheduler.js, one constructor each:
  'Compute units must be positive.', 'Deadline cannot be in the past.' and
  'Unknown strategy: "..."' (with the offending name).
\<close>

datatype error = ComputeNotPositive | DeadlineInPast | UnknownStrategy string

text \<open>
  \<open>Math.random()\<close> is an external source of numbers in \<open>[0, 1)\<close>. It is modelled as a
  fixed sequence \<open>rng\<close> of draws and the number \<open>drawn\<close> of draws consumed so far.
\<close>

record state =
  jobPool :: "job list"
  jobIdCounter :: nat
  computeHistory :: "num list"
  rng :: "nat \<Rightarrow> real"
  drawn :: nat

definition valid_rng :: "(nat \<Rightarrow> real) \<Rightarrow> bool" where
  "valid_rng f = (\<forall>n. 0 \<le> f n \<and> f n < 1)"

definition Math_random :: "state \<Rightarrow> real \<times> state" where
  "Math_random s = (rng s (drawn s), s\<lparr>drawn := Suc (drawn s)\<rparr>)"

subsection \<open>Job pool\<close>

definition resetJobPool :: "state \<Rightarrow> state" where
  "resetJobPool s = s\<lparr>jobPool := [], jobIdCounter := 1\<rparr>"

definition getJobPool :: "state \<Rightarrow> job list" where
  "getJobPool s = jobPool s"

definition addJob :: "num \<Rightarrow> num \<Rightarrow> num \<Rightarrow> state \<Rightarrow> (error + job) \<times> state" where
  "addJob c d today s =
     (if js_le c (Fin 0) then (Inl ComputeNotPositive, s)
      else if js_lt d today then (Inl DeadlineInPast, s)
      else
        let j = \<lparr>job_id = jobIdCounter s, compute = Math_round c,
                 deadline = Math_round d, addedDay = today\<rparr>
        in (Inr j, s\<lparr>jobIdCounter := jobIdCounter s + 1, jobPool := jobPool s @ [j]\<rparr>))"

text \<open>\<open>removeExpiredJobs\<close> returns the pair \<open>(remaining, expired)\<close> and the new state.\<close>

definition removeExpiredJobs :: "num \<Rightarrow> state \<Rightarrow> (job list \<times> job list) \<times> state" where
  "removeExpiredJobs today s =
     (let expired = filter (\<lambda>j. js_lt (deadline j) today) (jobPool s);
          s' = s\<lparr>jobPool := filter (\<lambda>j. js_le today (deadline j)) (jobPool s)\<rparr>
      in ((jobPool s', expired), s'))"

subsection \<open>Sorting strategies\<close>

text \<open>
  \<open>Array.prototype.sort\<close> with a comparator: the sort is stable, and for a consistent
  comparator the result is the ordered permutation fixed by stability. It is modelled
  as a stable insertion sort: an element goes in front of the first later element that
  the comparator does not put before it. The sort reads a comparator result \<open>v\<close> by its
  sign, NaN counting as 0: only \<open>v > 0\<close> puts the second argument first.
\<close>

fun js_insort :: "('a \<Rightarrow> 'a \<Rightarrow> num) \<Rightarrow> 'a \<Rightarrow> 'a list \<Rightarrow> 'a list" where
  "js_insort cmp x [] = [x]"
| "js_insort cmp x (y # ys) =
     (if js_lt (Fin 0) (cmp x y) then y # js_insort cmp x ys else x # y # ys)"

fun js_sort :: "('a \<Rightarrow> 'a \<Rightarrow> num) \<Rightarrow> 'a list \<Rightarrow> 'a list" where
  "js_sort cmp [] = []"
| "js_sort cmp (x # xs) = js_insort cmp x (js_sort cmp xs)"

definition edf_cmp :: "job \<Rightarrow> job \<Rightarrow> num" where
  "edf_cmp a b = (if js_ne (deadline a) (deadline b)
                  then fl_num (js_sub (deadline a) (deadline b))
                  else fl_num (js_sub (compute a) (compute b)))"

definition lcf_cmp :: "job \<Rightarrow> job \<Rightarrow> num" where
  "lcf_cmp a b = (if js_ne (compute b) (compute a)
                  then fl_num (js_sub (compute b) (compute a))
                  else fl_num (js_sub (deadline a) (deadline b)))"

text \<open>
  The Fisher-Yates loop \<open>for (i = copy.length - 1; i > 0; i--)\<close>; the argument
  \<open>Suc k\<close> is the loop variable \<open>i\<close>. The swap reads both cells before it writes.
  A draw in \<open>[0, 1)\<close> gives \<open>j \<le> i\<close>, so both indices are in range.
\<close>

fun shuffle_loop :: "nat \<Rightarrow> job list \<Rightarrow> state \<Rightarrow> job list \<times> state" where
  "shuffle_loop 0 copy s = (copy, s)"
| "shuffle_loop (Suc k) copy s =
     (let (r, s1) = Math_random s;
          j = nat \<lfloor>r * (real (Suc k) + 1)\<rfloor>
      in shuffle_loop k (copy[Suc k := copy ! j, j := copy ! Suc k]) s1)"

definition sortJobs :: "job list \<Rightarrow> string \<Rightarrow> state \<Rightarrow> (error + job list) \<times> state" where
  "sortJobs jobs strategy s =
     (if strategy = ''edf'' then (Inr (js_sort edf_cmp jobs), s)
      else if strategy = ''lcf'' then (Inr (js_sort lcf_cmp jobs), s)
      else if strategy = ''random'' then
        (let (copy, s') = shuffle_loop (length jobs - 1) jobs s in (Inr copy, s'))
      else (Inl (UnknownStrategy strategy), s))"

text \<open>
  The same function with its arrays in an explicit store, to say which array is written:
  a reference is a number, \<open>arrays\<close> gives the content of each array, and the references
  below \<open>allocated\<close> are in use. \<open>jobs.slice()\<close> allocates a new array with the elements of
  \<open>jobs\<close>; the sort and the shuffle write that copy in place; the copy is returned.
\<close>

record store =
  arrays :: "nat \<Rightarrow> job list"
  allocated :: nat

definition slice_in_store :: "nat \<Rightarrow> store \<Rightarrow> nat \<times> store" where
  "slice_in_store a h =
     (allocated h,
      h\<lparr>arrays := (arrays h)(allocated h := arrays h a), allocated := Suc (allocated h)\<rparr>)"

definition sortJobs_in_store ::
  "nat \<Rightarrow> string \<Rightarrow> state \<Rightarrow> store \<Rightarrow> (error + nat) \<times> state \<times> store" where
  "sortJobs_in_store jobs strategy s h =
     (let (copy, h1) = slice_in_store jobs h
      in if strategy = ''edf'' then
           (Inr copy, s, h1\<lparr>arrays := (arrays h1)(copy := js_sort edf_cmp (arrays h1 copy))\<rparr>)
         else if strategy = ''lcf'' then
           (Inr copy, s, h1\<lparr>arrays := (arrays h1)(copy := js_sort lcf_cmp (arrays h1 copy))\<rparr>)
         else if strategy = ''random'' then
           (let (shuffled, s') =
                  shuffle_loop (length (arrays h1 copy) - 1) (arrays h1 copy) s
            in (Inr copy, s', h1\<lparr>arrays := (arrays h1)(copy := shuffled)\<rparr>))
         else (Inl (UnknownStrategy strategy), s, h1))"

subsection \<open>Selection\<close>

definition selectJobs :: "job list \<Rightarrow> int \<Rightarrow> job list" where
  "selectJobs sortedJobs N = take (nat (max 0 N)) sortedJobs"

definition getRemainingJobs :: "job list \<Rightarrow> job list \<Rightarrow> job list" where
  "getRemainingJobs all selected =
     filter (\<lambda>j. job_id j \<notin> set (map job_id selected)) all"

subsection \<open>Metrics\<close>

definition calculateTotalCompute :: "job list \<Rightarrow> num" where
  "calculateTotalCompute jobs = foldl (\<lambda>acc j. fl_num (js_add acc (compute j))) (Fin 0) jobs"

definition calculateBacklog :: "job list \<Rightarrow> nat" where
  "calculateBacklog jobs = length jobs"

definition calculateLoadVariance :: "num list \<Rightarrow> num" where
  "calculateLoadVariance history =
     (if length history < 2 then Fin 0
      else
        let mean = fl_num (js_div_count (foldl (\<lambda>a b. fl_num (js_add a b)) (Fin 0) history)
                             (length history));
            sqDiffs = map (\<lambda>v. Math_pow2 (fl_num (js_sub v mean))) history
        in fl_num (js_div_count (foldl (\<lambda>a b. fl_num (js_add a b)) (Fin 0) sqDiffs)
                     (length history)))"

subsection \<open>Main scheduler\<close>

record dayResult =
  selected :: "job list"
  remaining :: "job list"
  expired :: "job list"
  totalCompute :: num
  backlogSize :: nat
  variance :: num
  day :: num
  strategy :: string

definition runScheduler ::
  "num \<Rightarrow> int \<Rightarrow> string \<Rightarrow> num list \<Rightarrow> state \<Rightarrow> (error + dayResult) \<times> state" where
  "runScheduler today N strat history s =
     (let ((rest, expd), s1) = removeExpiredJobs today s
      in case sortJobs (jobPool s1) strat s1 of
           (Inl e, s2) \<Rightarrow> (Inl e, s2)
         | (Inr sortedJobs, s2) \<Rightarrow>
             let sel = selectJobs sortedJobs N;
                 selectedIds = set (map job_id sel);
                 s3 = s2\<lparr>jobPool := filter (\<lambda>j. job_id j \<notin> selectedIds) (jobPool s2)\<rparr>;
                 total = calculateTotalCompute sel;
                 backlog = calculateBacklog (jobPool s3);
                 updatedHistory = history @ [total];
                 var = calculateLoadVariance updatedHistory
             in (Inr \<lparr>selected = sel, remaining = jobPool s3, expired = expd,
                       totalCompute = total, backlogSize = backlog, variance = var,
                       day = today, strategy = strat\<rparr>, s3))"

subsection \<open>Simulation driver (simulation.js)\<close>

text \<open>
  The loop of \<open>generateRandomJobs\<close>, \<open>for (let i = 0; i < count; i++)\<close> (\<open>cnt\<close> is \<open>count\<close>): two draws per
  round, then \<open>addJob\<close> inside \<open>try\<close>; a job that \<open>addJob\<close> rejects is skipped.
\<close>

function generateRandomJobs_loop ::
  "int \<Rightarrow> int \<Rightarrow> num \<Rightarrow> real \<Rightarrow> real \<Rightarrow> job list \<Rightarrow> state \<Rightarrow> job list \<times> state" where
  "generateRandomJobs_loop i cnt today maxOffset maxCompute created s =
     (if i < cnt then
        (let (r1, s1) = Math_random s;
             c = Fin (of_int \<lfloor>r1 * maxCompute\<rfloor> + 1);
             (r2, s2) = Math_random s1;
             deadlineOffset = Fin (of_int \<lfloor>r2 * maxOffset\<rfloor>);
             d = js_add today deadlineOffset
         in case addJob c d today s2 of
              (Inr j, s3) \<Rightarrow>
                generateRandomJobs_loop (i + 1) cnt today maxOffset maxCompute (created @ [j]) s3
            | (Inl e, s3) \<Rightarrow>
                generateRandomJobs_loop (i + 1) cnt today maxOffset maxCompute created s3)
      else (created, s))"
  by pat_completeness auto
termination
  by (relation "measure (\<lambda>(i, cnt, today, maxOffset, maxCompute, created, s). nat (cnt - i))")
     auto

declare generateRandomJobs_loop.simps [simp del]

definition generateRandomJobs ::
  "int \<Rightarrow> num \<Rightarrow> real \<Rightarrow> real \<Rightarrow> state \<Rightarrow> job list \<times> state" where
  "generateRandomJobs cnt today maxOffset maxCompute s =
     generateRandomJobs_loop 0 cnt today maxOffset maxCompute [] s"

record simResult = dayResult +
  incoming :: "job list"

text \<open>
  \<open>simulateDay\<close> calls \<open>generateRandomJobs\<close> with its default arguments
  \<open>maxOffset = 7\<close> and \<open>maxCompute = 20\<close>, and hands \<open>_computeHistory\<close> to \<open>runScheduler\<close>.
\<close>

definition simulateDay ::
  "num \<Rightarrow> int \<Rightarrow> string \<Rightarrow> int \<Rightarrow> state \<Rightarrow> (error + simResult) \<times> state" where
  "simulateDay today N strat incomingCount s =
     (let (r, s1) = Math_random s;
          randomCount = incomingCount + \<lfloor>r * 4\<rfloor> - 1;
          (inc, s2) = generateRandomJobs (max 1 randomCount) today 7 20 s1
      in case runScheduler today N strat (computeHistory s2) s2 of
           (Inl e, s3) \<Rightarrow> (Inl e, s3)
         | (Inr result, s3) \<Rightarrow>
             (Inr (dayResult.extend result \<lparr>incoming = inc\<rparr>),
              s3\<lparr>computeHistory := computeHistory s3 @ [totalCompute result]\<rparr>))"

text \<open>The loop of \<open>simulateMultipleDays\<close>, \<open>for (let d = 1; d <= days; d++)\<close>.\<close>

function simulateMultipleDays_loop ::
  "int \<Rightarrow> int \<Rightarrow> int \<Rightarrow> string \<Rightarrow> int \<Rightarrow> simResult list \<Rightarrow> state
     \<Rightarrow> (error + simResult list) \<times> state" where
  "simulateMultipleDays_loop d days N strat jobsPerDay results s =
     (if d \<le> days then
        (case simulateDay (Fin (of_int d)) N strat jobsPerDay s of
           (Inl e, s1) \<Rightarrow> (Inl e, s1)
         | (Inr dayRes, s1) \<Rightarrow>
             simulateMultipleDays_loop (d + 1) days N strat jobsPerDay (results @ [dayRes]) s1)
      else (Inr results, s))"
  by pat_completeness auto
termination
  by (relation "measure (\<lambda>(d, days, N, strat, jobsPerDay, results, s). nat (days + 1 - d))")
     auto

declare simulateMultipleDays_loop.simps [simp del]

definition simulateMultipleDays ::
  "int \<Rightarrow> int \<Rightarrow> string \<Rightarrow> int \<Rightarrow> state \<Rightarrow> (error + simResult list) \<times> state" where
  "simulateMultipleDays days N strat jobsPerDay s =
     (let s0 = (resetJobPool s)\<lparr>computeHistory := []\<rparr>
      in simulateMultipleDays_loop 1 days N strat jobsPerDay [] s0)"

text \<open>
  The loop of \<open>compareStrategies\<close> over \<open>['edf', 'lcf', 'random']\<close>; the object
  \<open>comparison\<close> is the list of its entries in insertion order.
\<close>

fun compareStrategies_loop ::
  "string list \<Rightarrow> int \<Rightarrow> int \<Rightarrow> int \<Rightarrow> (string \<times> simResult list) list \<Rightarrow> state
     \<Rightarrow> (error + (string \<times> simResult list) list) \<times> state" where
  "compareStrategies_loop [] days N jobs comparison s = (Inr comparison, s)"
| "compareStrategies_loop (st # strategies) days N jobs comparison s =
     (case simulateMultipleDays days N st jobs s of
        (Inl e, s1) \<Rightarrow> (Inl e, s1)
      | (Inr res, s1) \<Rightarrow>
          compareStrategies_loop strategies days N jobs (comparison @ [(st, res)]) s1)"

definition compareStrategies ::
  "int \<Rightarrow> int \<Rightarrow> int \<Rightarrow> state \<Rightarrow> (error + (string \<times> simResult list) list) \<times> state" where
  "compareStrategies days N jobs s =
     compareStrategies_loop [''edf'', ''lcf'', ''random''] days N jobs [] s"

definition resetSimulation :: "state \<Rightarrow> state" where
  "resetSimulation s = (resetJobPool s)\<lparr>computeHistory := []\<rparr>"

subsection \<open>Sequences of calls, reference definitions and example states\<close>

text \<open>
  A pool lifetime is a sequence of calls of the pool's operations other than
  \<open>resetJobPool\<close>. \<open>lifetime\<close> runs the calls in order from a state and returns the jobs
  that \<open>addJob\<close> returned, in admission order, with the final state. A call that throws
  is skipped, as for a caller that catches the exception.
\<close>

datatype call =
    AddJob num num num
  | RemoveExpiredJobs num
  | RunScheduler num int string "num list"

fun lifetime :: "call list \<Rightarrow> state \<Rightarrow> job list \<times> state" where
  "lifetime [] s = ([], s)"
| "lifetime (AddJob c d today # calls) s =
     (case addJob c d today s of
        (Inr j, s1) \<Rightarrow> (let (js, s2) = lifetime calls s1 in (j # js, s2))
      | (Inl e, s1) \<Rightarrow> lifetime calls s1)"
| "lifetime (RemoveExpiredJobs today # calls) s =
     lifetime calls (snd (removeExpiredJobs today s))"
| "lifetime (RunScheduler today N strat history # calls) s =
     lifetime calls (snd (runScheduler today N strat history s))"

text \<open>
  The admitted jobs of a run of calls carry increasing ids between the counter before
  and the counter after, the first of them the counter before.
\<close>

definition ids_ok :: "state \<Rightarrow> job list \<times> state \<Rightarrow> bool" where
  "ids_ok s r =
     (sorted_wrt (<) (map job_id (fst r))
      \<and> (\<forall>j \<in> set (fst r). jobIdCounter s \<le> job_id j \<and> job_id j < jobIdCounter (snd r))
      \<and> jobIdCounter s \<le> jobIdCounter (snd r)
      \<and> (\<forall>j js. fst r = j # js \<longrightarrow> job_id j = jobIdCounter s))"

text \<open>
  The pool is keyed by id: its jobs carry pairwise distinct ids, all below the counter.
\<close>

definition pool_inv :: "state \<Rightarrow> bool" where
  "pool_inv s = (distinct (map job_id (jobPool s))
                 \<and> (\<forall>j \<in> set (jobPool s). job_id j < jobIdCounter s))"




text \<open>A state right after the module is loaded, with a random source that always draws 0.\<close>

definition fresh_state :: state where
  "fresh_state =
     \<lparr>jobPool = [], jobIdCounter = 1, computeHistory = [], rng = (\<lambda>n. 0), drawn = 0\<rparr>"

text \<open>The pool of the walkthrough in the README (day 5): jobs J12 to J17.\<close>

definition readme_pool :: "job list" where
  "readme_pool =
     [\<lparr>job_id = 12, compute = Fin 8, deadline = Fin 4, addedDay = Fin 1\<rparr>,
      \<lparr>job_id = 13, compute = Fin 15, deadline = Fin 5, addedDay = Fin 1\<rparr>,
      \<lparr>job_id = 14, compute = Fin 3, deadline = Fin 5, addedDay = Fin 1\<rparr>,
      \<lparr>job_id = 15, compute = Fin 10, deadline = Fin 7, addedDay = Fin 1\<rparr>,
      \<lparr>job_id = 16, compute = Fin 12, deadline = Fin 6, addedDay = Fin 1\<rparr>,
      \<lparr>job_id = 17, compute = Fin 5, deadline = Fin 8, addedDay = Fin 1\<rparr>]"

definition readme_state :: state where
  "readme_state =
     \<lparr>jobPool = readme_pool, jobIdCounter = 18, computeHistory = [],
      rng = (\<lambda>n. 0), drawn = 0\<rparr>"

text \<open>
  The pool after \<open>addJob(5, NaN, 1)\<close> on the fresh state: both guards of \<open>addJob\<close> are
  false for a NaN deadline, and the job is stored.
\<close>

definition nan_deadline_state :: state where
  "nan_deadline_state = snd (addJob (Fin 5) NaN (Fin 1) fresh_state)"

text \<open>Three jobs due the same day, the second with a NaN compute.\<close>

definition nan_compute_jobs :: "job list" where
  "nan_compute_jobs =
     [\<lparr>job_id = 1, compute = Fin 3, deadline = Fin 5, addedDay = Fin 1\<rparr>,
      \<lparr>job_id = 2, compute = NaN, deadline = Fin 5, addedDay = Fin 1\<rparr>,
      \<lparr>job_id = 3, compute = Fin 1, deadline = Fin 5, addedDay = Fin 1\<rparr>]"

text \<open>
  A store whose only array, at reference 0, is the README pool without the expired job
  J12.
\<close>

definition readme_store :: store where
  "readme_store =
     \<lparr>arrays = (\<lambda>a. if a = 0 then tl readme_pool else []), allocated = 1\<rparr>"

text \<open>Three jobs, the second with a NaN deadline.\<close>

definition nan_deadline_jobs :: "job list" where
  "nan_deadline_jobs =
     [\<lparr>job_id = 1, compute = Fin 3, deadline = Fin 5, addedDay = Fin 1\<rparr>,
      \<lparr>job_id = 2, compute = Fin 3, deadline = NaN, addedDay = Fin 1\<rparr>,
      \<lparr>job_id = 3, compute = Fin 3, deadline = Fin 4, addedDay = Fin 1\<rparr>]"


section \<open>Properties\<close>

subsection \<open>Numbers: order\<close>

lemma js_lt_not_le: "js_lt a b \<Longrightarrow> \<not> js_le b a"
  by (cases a; cases b) auto


lemma js_lt_or_le: "a \<noteq> NaN \<Longrightarrow> b \<noteq> NaN \<Longrightarrow> js_lt a b \<or> js_le b a"
  by (cases a; cases b) auto

lemma js_le_refl: "a \<noteq> NaN \<Longrightarrow> js_le a a"
  by (cases a) auto

lemma js_lt_irrefl: "\<not> js_lt a a"
  by (cases a) auto

lemma js_lt_trans: "js_lt a b \<Longrightarrow> js_lt b c \<Longrightarrow> js_lt a c"
  by (cases a; cases b; cases c) auto

lemma js_lt_asym: "js_lt a b \<Longrightarrow> \<not> js_lt b a"
  by (cases a; cases b) auto

lemma js_lt_total: "a \<noteq> NaN \<Longrightarrow> b \<noteq> NaN \<Longrightarrow> a \<noteq> b \<Longrightarrow> js_lt a b \<or> js_lt b a"
  by (cases a; cases b) auto

lemma js_ne_number: "a \<noteq> NaN \<Longrightarrow> b \<noteq> NaN \<Longrightarrow> js_ne a b = (a \<noteq> b)"
  by (simp add: js_ne_def)

lemma is_number_not_NaN: "is_number a \<Longrightarrow> a \<noteq> NaN"
  by (cases a) auto

subsection \<open>Numbers: rounding\<close>

lemma round_even_of_int [simp]: "round_even (of_int z) = z"
  by (simp add: round_even_def)

lemma round_even_nonpos: "r \<le> 0 \<Longrightarrow> round_even r \<le> 0"
proof -
  assume r: "r \<le> 0"
  have f: "\<lfloor>r\<rfloor> \<le> 0" using r by (simp add: floor_le_iff)
  have "\<lfloor>r\<rfloor> = 0 \<Longrightarrow> r = 0" using r by linarith
  then show ?thesis using f r
    by (cases "\<lfloor>r\<rfloor> = 0") (auto simp: round_even_def Let_def)
qed

lemma round_even_pos: "1 \<le> r \<Longrightarrow> 1 \<le> round_even r"
proof -
  assume "1 \<le> r"
  then have "1 \<le> \<lfloor>r\<rfloor>" by (simp add: le_floor_iff)
  then show ?thesis by (auto simp: round_even_def Let_def)
qed

lemma drop_bits_scaled: "a < 2 ^ 53 \<Longrightarrow> drop_bits (a * 2 ^ n) \<le> n"
proof (induction n)
  case 0
  then show ?case by (simp add: drop_bits.simps)
next
  case (Suc n)
  have "(a * 2 ^ Suc n) div 2 = a * 2 ^ n" by simp
  with Suc show ?case by (subst drop_bits.simps) simp
qed

lemma drop_bits_le: "1 \<le> n \<Longrightarrow> 2 ^ drop_bits n \<le> n"
proof (induction n rule: drop_bits.induct)
  case (1 n)
  show ?case
  proof (cases "n < 2 ^ 53")
    case True
    with "1.prems" show ?thesis by (subst drop_bits.simps) simp
  next
    case False
    then have "(2::nat) \<le> n" by simp
    then have "1 \<le> n div 2" by linarith
    with "1.IH"[OF False] have "2 ^ drop_bits (n div 2) \<le> n div 2" by simp
    then have "2 * 2 ^ drop_bits (n div 2) \<le> n" by linarith
    with False show ?thesis by (subst drop_bits.simps) simp
  qed
qed


lemma scaled_floor: "nat \<lfloor>\<bar>(of_int k :: real) * 2 ^ p\<bar>\<rfloor> = nat \<bar>k\<bar> * 2 ^ p"
proof -
  have "\<bar>(of_int k :: real) * 2 ^ p\<bar> = of_int (\<bar>k\<bar> * 2 ^ p)" by (simp add: abs_mult)
  then have "\<lfloor>\<bar>(of_int k :: real) * 2 ^ p\<bar>\<rfloor> = \<bar>k\<bar> * 2 ^ p" by (simp only: floor_of_int)
  then show ?thesis by (simp add: nat_mult_distrib nat_power_eq)
qed

lemma scaled_quotient:
  assumes "s \<le> p"
  shows "(of_int k :: real) * 2 ^ p / 2 ^ s = of_int (k * 2 ^ (p - s))"
proof -
  have "(2::real) ^ p = 2 ^ (p - s) * 2 ^ s" using assms by (simp flip: power_add)
  then show ?thesis by simp
qed

lemma scaled_back:
  assumes "s \<le> p"
  shows "\<bar>k * 2 ^ (p - s)\<bar> * 2 ^ s = \<bar>k\<bar> * (2::int) ^ p"
    and "(of_int (k * 2 ^ (p - s)) :: real) * 2 ^ s / 2 ^ p = of_int k"
proof -
  have i: "(2::int) ^ p = 2 ^ (p - s) * 2 ^ s" using assms by (simp flip: power_add)
  then show "\<bar>k * 2 ^ (p - s)\<bar> * 2 ^ s = \<bar>k\<bar> * (2::int) ^ p" by (simp add: abs_mult)
  have "(2::real) ^ p = 2 ^ (p - s) * 2 ^ s" using assms by (simp flip: power_add)
  then show "(of_int (k * 2 ^ (p - s)) :: real) * 2 ^ s / 2 ^ p = of_int k" by simp
qed

lemma scaled_small:
  assumes "\<bar>k\<bar> < 2 ^ 53" "53 + p \<le> q"
  shows "\<not> (2::int) ^ q \<le> \<bar>k\<bar> * 2 ^ p"
proof -
  have "\<bar>k\<bar> * (2::int) ^ p < 2 ^ 53 * 2 ^ p"
    using assms by (simp add: mult_strict_right_mono del: power_numeral)
  also have "\<dots> = 2 ^ (53 + p)" by (simp only: power_add)
  also have "\<dots> \<le> 2 ^ q" using assms(2) by (intro power_increasing) simp_all
  finally show ?thesis by simp
qed

text \<open>Every integer below \<open>2^53\<close> in magnitude is a double.\<close>

lemma fl_of_int:
  assumes "\<bar>k\<bar> < 2 ^ 53"
  shows "fl (of_int k) = Fin (of_int k)"
proof -
  define s where "s = drop_bits (nat \<bar>k\<bar> * 2 ^ 1074)"
  have "nat \<bar>k\<bar> < 2 ^ 53" using assms by (simp add: nat_less_iff del: power_numeral)
  then have s: "s \<le> 1074" unfolding s_def by (rule drop_bits_scaled)
  have m: "round_even ((of_int k :: real) * 2 ^ 1074 / 2 ^ s) = k * 2 ^ (1074 - s)"
    unfolding scaled_quotient[OF s] by (rule round_even_of_int)
  have small: "\<not> (2::int) ^ 2098 \<le> \<bar>k\<bar> * 2 ^ 1074"
    using scaled_small[OF assms, of 1074 2098] by (simp del: power_numeral)
  show ?thesis
    unfolding fl_def Let_def scaled_floor s_def[symmetric] m scaled_back[OF s]
    using small by (simp only: if_False)
qed

lemma fl_numeral [simp]:
  "numeral n < (2::int) ^ 53 \<Longrightarrow> fl (numeral n) = Fin (numeral n)"
  using fl_of_int[of "numeral n"] by simp

lemma fl_neg_numeral [simp]:
  "numeral n < (2::int) ^ 53 \<Longrightarrow> fl (- numeral n) = Fin (- numeral n)"
  using fl_of_int[of "- numeral n"] by simp

lemma fl_zero [simp]: "fl 0 = Fin 0"
  using fl_of_int[of 0] by simp

lemma fl_one [simp]: "fl 1 = Fin 1"
  using fl_of_int[of 1] by simp

lemma fl_minus_one [simp]: "fl (- 1) = Fin (- 1)"
  using fl_of_int[of "- 1"] by simp

lemma is_double_of_int: "\<bar>k\<bar> < 2 ^ 53 \<Longrightarrow> is_double (of_int k)"
  by (simp add: is_double_def fl_of_int)

lemma is_double_numeral [simp]: "numeral n < (2::int) ^ 53 \<Longrightarrow> is_double (numeral n)"
  by (simp add: is_double_def)

lemma is_double_neg_numeral [simp]:
  "numeral n < (2::int) ^ 53 \<Longrightarrow> is_double (- numeral n)"
  by (simp add: is_double_def)

lemma is_double_zero [simp]: "is_double 0"
  by (simp add: is_double_def)

lemma is_double_one [simp]: "is_double 1"
  by (simp add: is_double_def)

lemma is_double_minus_one [simp]: "is_double (- 1)"
  by (simp add: is_double_def)

text \<open>A finite result of \<open>fl\<close> is an integer multiple of \<open>2^-1074\<close>.\<close>

lemma fl_dyadic:
  assumes "fl x = Fin y"
  shows "\<exists>n::int. y * 2 ^ 1074 = of_int n"
proof -
  define s where "s = drop_bits (nat \<lfloor>\<bar>x * 2 ^ 1074\<bar>\<rfloor>)"
  define m where "m = round_even (x * 2 ^ 1074 / 2 ^ s)"
  from assms have "y = of_int m * 2 ^ s / 2 ^ 1074"
    unfolding fl_def Let_def s_def[symmetric] m_def[symmetric]
    by (simp only: split: if_splits) (simp_all only: num.inject num.distinct)
  then have "y * 2 ^ 1074 = of_int (m * 2 ^ s)" by (simp del: power_numeral)
  then show ?thesis by blast
qed


text \<open>
  Rounding keeps the sign of a difference of two doubles: the difference is a multiple of
  \<open>2^-1074\<close>, so it is zero or at least that far from zero, and it does not round to zero.
\<close>

lemma fl_nonpos: "x \<le> 0 \<Longrightarrow> \<not> js_lt (Fin 0) (fl x)"
proof -
  assume x: "x \<le> 0"
  define s where "s = drop_bits (nat \<lfloor>\<bar>x * 2 ^ 1074\<bar>\<rfloor>)"
  have "x * 2 ^ 1074 / 2 ^ s \<le> 0" using x by (simp add: divide_le_0_iff mult_le_0_iff del: power_numeral)
  then have "round_even (x * 2 ^ 1074 / 2 ^ s) \<le> 0" by (rule round_even_nonpos)
  then have "(of_int (round_even (x * 2 ^ 1074 / 2 ^ s)) :: real) * 2 ^ s / 2 ^ 1074 \<le> 0"
    by (simp add: divide_le_0_iff mult_le_0_iff del: power_numeral)
  then show ?thesis
    unfolding fl_def Let_def s_def[symmetric] using x by (simp del: power_numeral)
qed

lemma fl_pos:
  assumes "1 \<le> x * 2 ^ 1074"
  shows "js_lt (Fin 0) (fl x)"
proof -
  define X where "X = x * 2 ^ 1074"
  define s where "s = drop_bits (nat \<lfloor>\<bar>X\<bar>\<rfloor>)"
  have X1: "1 \<le> X" using assms by (simp add: X_def)
  have "0 < x * 2 ^ 1074" using assms by linarith
  then have x0: "0 < x" by (simp add: zero_less_mult_iff del: power_numeral)
  have "1 \<le> \<lfloor>\<bar>X\<bar>\<rfloor>" using X1 by (simp add: le_floor_iff)
  then have n1: "1 \<le> nat \<lfloor>\<bar>X\<bar>\<rfloor>" by linarith
  from drop_bits_le[OF n1] have "2 ^ s \<le> nat \<lfloor>\<bar>X\<bar>\<rfloor>" by (simp add: s_def)
  then have "(2::real) ^ s \<le> of_nat (nat \<lfloor>\<bar>X\<bar>\<rfloor>)"
    by (metis of_nat_le_iff of_nat_numeral of_nat_power)
  also have "\<dots> \<le> \<bar>X\<bar>" using X1 by (simp add: of_nat_nat)
  also have "\<dots> = X" using X1 by simp
  finally have "1 \<le> X / 2 ^ s" by (simp add: le_divide_eq)
  then have m: "1 \<le> round_even (X / 2 ^ s)" by (rule round_even_pos)
  then have "0 < (of_int (round_even (X / 2 ^ s)) :: real) * 2 ^ s / 2 ^ 1074"
    by (simp add: zero_less_divide_iff zero_less_mult_iff del: power_numeral)
  then show ?thesis
    unfolding fl_def Let_def X_def[symmetric] s_def[symmetric] using x0
    by (simp del: power_numeral)
qed

lemma fl_sub_sign:
  assumes "is_double x" "is_double y"
  shows "js_lt (Fin 0) (fl (x - y)) = (y < x)"
proof (cases "y < x")
  case False
  then have "x - y \<le> 0" by simp
  from fl_nonpos[OF this] False show ?thesis by simp
next
  case True
  obtain a b :: int where a: "x * 2 ^ 1074 = of_int a" and b: "y * 2 ^ 1074 = of_int b"
    using assms fl_dyadic unfolding is_double_def by blast
  have d: "(x - y) * 2 ^ 1074 = of_int (a - b)"
    using a b by (simp add: algebra_simps del: power_numeral)
  have "0 < (x - y) * 2 ^ 1074" using True by (simp add: zero_less_mult_iff del: power_numeral)
  then have "0 < a - b" unfolding d by simp
  then have "1 \<le> a - b" by simp
  then have "(1::real) \<le> of_int (a - b)" by (simp only: of_int_1_le_iff)
  then have "1 \<le> (x - y) * 2 ^ 1074" unfolding d .
  from fl_pos[OF this] True show ?thesis by simp
qed

lemma js_sub_sign:
  assumes "is_number a" "is_number b"
  shows "js_lt (Fin 0) (fl_num (js_sub a b)) = js_lt b a"
  using assms by (cases a; cases b) (simp_all add: fl_sub_sign)

subsection \<open>Admission\<close>

lemma addJob_id:
  "addJob c d today s = (Inr j, s') \<Longrightarrow>
     job_id j = jobIdCounter s \<and> jobIdCounter s' = Suc (jobIdCounter s)"
  by (auto simp: addJob_def Let_def split: if_splits)

lemma addJob_fail_state: "addJob c d today s = (Inl e, s') \<Longrightarrow> s' = s"
  by (auto simp: addJob_def Let_def split: if_splits)

text \<open>
  Claim C1. Every successful \<open>addJob\<close> should store a job with \<open>compute > 0\<close>, for all
  numeric inputs. The code checks \<open>compute <= 0\<close> on the raw input and rounds afterwards:
  \<open>addJob(0.25, 5, 1)\<close> passes the check, succeeds, and stores a job whose compute is
  \<open>Math.round(0.25) = 0\<close>.
\<close>

theorem addJob_quarter_compute_stored_as_zero:
  "addJob (Fin (1 / 4)) (Fin 5) (Fin 1) fresh_state =
     (Inr \<lparr>job_id = 1, compute = Fin 0, deadline = Fin 5, addedDay = Fin 1\<rparr>,
      fresh_state\<lparr>jobIdCounter := 2,
        jobPool := [\<lparr>job_id = 1, compute = Fin 0, deadline = Fin 5, addedDay = Fin 1\<rparr>]\<rparr>)"
  by (simp add: addJob_def fresh_state_def Let_def)

text \<open>
  Claim C10. When \<open>addJob\<close> fails (compute not positive, or deadline before today), the
  whole state, pool and id counter included, is the state before the call; so the next
  successful admission receives the id that was next before the failed call.
\<close>

theorem addJob_failure_leaves_state:
  assumes "js_le c (Fin 0) \<or> js_lt d today"
  shows "(\<exists>e. addJob c d today s = (Inl e, s))
       \<and> (\<forall>c' d' today' j s'. addJob c' d' today' (snd (addJob c d today s)) = (Inr j, s')
            \<longrightarrow> job_id j = jobIdCounter s)"
  using assms by (auto simp: addJob_def Let_def split: if_splits)

theorem addJob_failure_leaves_state_witness:
  "(js_le (Fin 0) (Fin 0) \<or> js_lt (Fin 3) (Fin 1))
   \<and> addJob (Fin 0) (Fin 3) (Fin 1) fresh_state = (Inl ComputeNotPositive, fresh_state)
   \<and> job_id (projr (fst (addJob (Fin 4) (Fin 3) (Fin 1)
         (snd (addJob (Fin 0) (Fin 3) (Fin 1) fresh_state)))))
       = jobIdCounter fresh_state"
  using addJob_failure_leaves_state[of "Fin 0" "Fin 3" "Fin 1" fresh_state]
  by (simp add: addJob_def fresh_state_def Let_def)

subsection \<open>Expiry\<close>



subsection \<open>Metrics\<close>


















subsection \<open>Sorting\<close>

lemma mset_js_insort: "mset (js_insort cmp x ys) = add_mset x (mset ys)"
  by (induction ys) auto

lemma mset_js_sort: "mset (js_sort cmp xs) = mset xs"
  by (induction xs) (auto simp: mset_js_insort)

lemma set_js_insort: "set (js_insort cmp x ys) = insert x (set ys)"
  by (induction ys) auto

lemma set_js_sort: "set (js_sort cmp xs) = set xs"
  by (induction xs) (auto simp: set_js_insort)

text \<open>
  Insertion keeps a list ordered when the comparator, read by its sign, is total and
  transitive on the elements at hand.
\<close>

lemma sorted_wrt_js_insort:
  assumes total: "\<And>a b. a \<in> A \<Longrightarrow> b \<in> A \<Longrightarrow>
                    \<not> js_lt (Fin 0) (cmp a b) \<or> \<not> js_lt (Fin 0) (cmp b a)"
    and trans: "\<And>a b c. a \<in> A \<Longrightarrow> b \<in> A \<Longrightarrow> c \<in> A \<Longrightarrow>
                    \<not> js_lt (Fin 0) (cmp a b) \<Longrightarrow> \<not> js_lt (Fin 0) (cmp b c)
                    \<Longrightarrow> \<not> js_lt (Fin 0) (cmp a c)"
    and x: "x \<in> A" and ys: "set ys \<subseteq> A"
    and srt: "sorted_wrt (\<lambda>a b. \<not> js_lt (Fin 0) (cmp a b)) ys"
  shows "sorted_wrt (\<lambda>a b. \<not> js_lt (Fin 0) (cmp a b)) (js_insort cmp x ys)"
  using ys srt
proof (induction ys)
  case Nil
  then show ?case by simp
next
  case (Cons y ys)
  show ?case
  proof (cases "js_lt (Fin 0) (cmp x y)")
    case False
    have "\<not> js_lt (Fin 0) (cmp x z)" if "z \<in> set ys" for z
      using trans[of x y z] x Cons.prems False that by auto
    with False Cons.prems show ?thesis by auto
  next
    case True
    with total[of x y] x Cons.prems have "\<not> js_lt (Fin 0) (cmp y x)" by auto
    with True Cons show ?thesis by (auto simp: set_js_insort)
  qed
qed

lemma sorted_wrt_js_sort:
  assumes total: "\<And>a b. a \<in> A \<Longrightarrow> b \<in> A \<Longrightarrow>
                    \<not> js_lt (Fin 0) (cmp a b) \<or> \<not> js_lt (Fin 0) (cmp b a)"
    and trans: "\<And>a b c. a \<in> A \<Longrightarrow> b \<in> A \<Longrightarrow> c \<in> A \<Longrightarrow>
                    \<not> js_lt (Fin 0) (cmp a b) \<Longrightarrow> \<not> js_lt (Fin 0) (cmp b c)
                    \<Longrightarrow> \<not> js_lt (Fin 0) (cmp a c)"
    and xs: "set xs \<subseteq> A"
  shows "sorted_wrt (\<lambda>a b. \<not> js_lt (Fin 0) (cmp a b)) (js_sort cmp xs)"
  using xs
proof (induction xs)
  case Nil
  show ?case by simp
next
  case (Cons x xs)
  then have x: "x \<in> A" and rest: "set (js_sort cmp xs) \<subseteq> A"
    by (auto simp: set_js_sort)
  from Cons have "sorted_wrt (\<lambda>a b. \<not> js_lt (Fin 0) (cmp a b)) (js_sort cmp xs)" by simp
  from sorted_wrt_js_insort[of A cmp x "js_sort cmp xs", OF total trans x rest this]
  show ?case by simp
qed

text \<open>
  On jobs whose deadline and compute are numbers, the \<open>'edf'\<close> comparator is positive
  exactly when its first argument is the later one in the order (deadline, compute).
\<close>

lemma edf_cmp_sign:
  assumes "is_number (deadline a)" "is_number (compute a)"
    and "is_number (deadline b)" "is_number (compute b)"
  shows "js_lt (Fin 0) (edf_cmp a b)
       = (js_lt (deadline b) (deadline a)
          \<or> (deadline a = deadline b \<and> js_lt (compute b) (compute a)))"
proof (cases "deadline a = deadline b")
  case True
  with assms show ?thesis
    by (simp add: edf_cmp_def js_ne_number is_number_not_NaN js_sub_sign js_lt_irrefl)
next
  case False
  with assms show ?thesis
    by (simp add: edf_cmp_def js_ne_number is_number_not_NaN js_sub_sign)
qed

lemma edf_cmp_total:
  assumes "is_number (deadline a)" "is_number (compute a)"
    and "is_number (deadline b)" "is_number (compute b)"
  shows "\<not> js_lt (Fin 0) (edf_cmp a b) \<or> \<not> js_lt (Fin 0) (edf_cmp b a)"
  unfolding edf_cmp_sign[OF assms] edf_cmp_sign[OF assms(3,4,1,2)]
  using js_lt_asym js_lt_irrefl by metis

lemma edf_cmp_trans:
  assumes a: "is_number (deadline a)" "is_number (compute a)"
    and b: "is_number (deadline b)" "is_number (compute b)"
    and c: "is_number (deadline c)" "is_number (compute c)"
    and ab: "\<not> js_lt (Fin 0) (edf_cmp a b)" and bc: "\<not> js_lt (Fin 0) (edf_cmp b c)"
  shows "\<not> js_lt (Fin 0) (edf_cmp a c)"
proof -
  note n = a b c
  have da: "deadline a \<noteq> NaN" "deadline b \<noteq> NaN" "deadline c \<noteq> NaN"
    and ca: "compute a \<noteq> NaN" "compute b \<noteq> NaN" "compute c \<noteq> NaN"
    using n by (auto dest: is_number_not_NaN)
  from ab have 1: "\<not> js_lt (deadline b) (deadline a)"
    and 2: "deadline a = deadline b \<Longrightarrow> \<not> js_lt (compute b) (compute a)"
    unfolding edf_cmp_sign[OF a b] by auto
  from bc have 3: "\<not> js_lt (deadline c) (deadline b)"
    and 4: "deadline b = deadline c \<Longrightarrow> \<not> js_lt (compute c) (compute b)"
    unfolding edf_cmp_sign[OF b c] by auto
  have 5: "\<not> js_lt (deadline c) (deadline a)"
    using 1 3 da by (metis js_lt_total js_lt_trans)
  have 6: "\<not> js_lt (compute c) (compute a)" if "deadline a = deadline c"
  proof -
    have "deadline a = deadline b"
      using that 1 3 da by (metis js_lt_total)
    with that 2 4 ca show ?thesis by (metis js_lt_total js_lt_trans)
  qed
  show ?thesis unfolding edf_cmp_sign[OF a c] using 5 6 by auto
qed

lemma sorted_wrt_edf:
  assumes "\<forall>j \<in> set jobs. is_number (deadline j) \<and> is_number (compute j)"
  shows "sorted_wrt (\<lambda>a b. \<not> js_lt (Fin 0) (edf_cmp a b)) (js_sort edf_cmp jobs)"
proof (rule sorted_wrt_js_sort[where A = "{j. is_number (deadline j) \<and> is_number (compute j)}"])
  show "set jobs \<subseteq> {j. is_number (deadline j) \<and> is_number (compute j)}"
    using assms by auto
qed (use edf_cmp_total edf_cmp_trans in \<open>blast+\<close>)

lemma addJob_admits_NaN:
  "addJob NaN NaN (Fin 1) fresh_state =
     (Inr \<lparr>job_id = 1, compute = NaN, deadline = NaN, addedDay = Fin 1\<rparr>,
      fresh_state\<lparr>jobIdCounter := 2,
        jobPool := [\<lparr>job_id = 1, compute = NaN, deadline = NaN, addedDay = Fin 1\<rparr>]\<rparr>)"
  by (simp add: addJob_def fresh_state_def Let_def)

text \<open>
  Claim C6 as stated fails on the code: \<open>addJob\<close> admits a NaN compute, the comparator
  then returns NaN, which the sort reads as 0, and of three jobs due the same day with
  computes 3, NaN and 1 the order is kept: compute 3 stands before compute 1.
\<close>

theorem sortJobs_edf_nan_compute_unsorted:
  "sortJobs nan_compute_jobs ''edf'' fresh_state = (Inr nan_compute_jobs, fresh_state)
   \<and> deadline (nan_compute_jobs ! 2) = deadline (nan_compute_jobs ! 0)
   \<and> js_lt (compute (nan_compute_jobs ! 2)) (compute (nan_compute_jobs ! 0))"
  by (simp add: sortJobs_def edf_cmp_def js_ne_def nan_compute_jobs_def)

text \<open>A NaN deadline does the same: deadline 5 stays before deadline 4.\<close>

lemma sortJobs_edf_nan_deadline_unsorted:
  "sortJobs nan_deadline_jobs ''edf'' fresh_state = (Inr nan_deadline_jobs, fresh_state)
   \<and> js_lt (deadline (nan_deadline_jobs ! 2)) (deadline (nan_deadline_jobs ! 0))"
  by (simp add: sortJobs_def edf_cmp_def js_ne_def nan_deadline_jobs_def)

text \<open>
  Claim C6, as the code has it. For every list of jobs whose deadlines and computes are
  numbers (none is NaN), \<open>sortJobs\<close> under \<open>'edf'\<close> returns a permutation of its input in
  which a job with a smaller deadline, or with the same deadline and a smaller compute,
  stands before the other. The result is a new array: with the arrays in a store, the
  returned reference is fresh, it holds the ordered list, and no other array, the input
  included, is written.
\<close>

theorem sortJobs_edf_order:
  assumes "\<forall>j \<in> set jobs. is_number (deadline j) \<and> is_number (compute j)"
  shows "\<exists>ys. sortJobs jobs ''edf'' s = (Inr ys, s) \<and> mset ys = mset jobs \<and>
     (\<forall>i j. i < length ys \<and> j < length ys \<and>
        (js_lt (deadline (ys ! i)) (deadline (ys ! j)) \<or>
         (deadline (ys ! i) = deadline (ys ! j) \<and> js_lt (compute (ys ! i)) (compute (ys ! j))))
        \<longrightarrow> i < j) \<and>
     (\<forall>h a. arrays h a = jobs \<and> a < allocated h \<longrightarrow>
        (\<exists>h'. sortJobs_in_store a ''edf'' s h = (Inr (allocated h), s, h')
              \<and> arrays h' (allocated h) = ys \<and> arrays h' a = jobs
              \<and> (\<forall>b. b \<noteq> allocated h \<longrightarrow> arrays h' b = arrays h b)))"
proof -
  let ?ys = "js_sort edf_cmp jobs"
  have nums: "is_number (deadline (?ys ! i)) \<and> is_number (compute (?ys ! i))"
    if "i < length ?ys" for i
  proof -
    from that have "?ys ! i \<in> set ?ys" by simp
    then show ?thesis using assms by (simp add: set_js_sort)
  qed
  have ord: "i < j" if i: "i < length ?ys" and j: "j < length ?ys"
    and before: "js_lt (deadline (?ys ! i)) (deadline (?ys ! j)) \<or>
      (deadline (?ys ! i) = deadline (?ys ! j) \<and> js_lt (compute (?ys ! i)) (compute (?ys ! j)))"
    for i j
  proof (rule ccontr)
    assume "\<not> i < j"
    then consider "i = j" | "j < i" by linarith
    then show False
    proof cases
      case 1
      with before show False by (simp add: js_lt_irrefl)
    next
      case 2
      with i sorted_wrt_edf[OF assms]
      have "\<not> js_lt (Fin 0) (edf_cmp (?ys ! j) (?ys ! i))"
        by (simp add: sorted_wrt_iff_nth_less)
      moreover have "js_lt (Fin 0) (edf_cmp (?ys ! j) (?ys ! i))"
        using nums[OF i] nums[OF j] before
        by (subst edf_cmp_sign) auto
      ultimately show False by simp
    qed
  qed
  have st: "\<exists>h'. sortJobs_in_store a ''edf'' s h = (Inr (allocated h), s, h')
              \<and> arrays h' (allocated h) = ?ys \<and> arrays h' a = jobs
              \<and> (\<forall>b. b \<noteq> allocated h \<longrightarrow> arrays h' b = arrays h b)"
    if "arrays h a = jobs" "a < allocated h" for h a
    using that by (simp add: sortJobs_in_store_def slice_in_store_def Let_def)
  show ?thesis
    by (rule exI[of _ ?ys]) (use ord st in \<open>auto simp: sortJobs_def mset_js_sort\<close>)
qed

theorem sortJobs_edf_order_witness:
  "list_all (\<lambda>j. is_number (deadline j) \<and> is_number (compute j)) (tl readme_pool)
   \<and> (\<exists>ys. sortJobs (tl readme_pool) ''edf'' fresh_state = (Inr ys, fresh_state)
        \<and> map job_id ys = [14, 13, 16, 15, 17]
        \<and> 0 < length ys \<and> 1 < length ys
        \<and> deadline (ys ! 0) = deadline (ys ! 1) \<and> js_lt (compute (ys ! 0)) (compute (ys ! 1))
        \<and> arrays readme_store 0 = tl readme_pool \<and> 0 < allocated readme_store
        \<and> (\<exists>h'. sortJobs_in_store 0 ''edf'' fresh_state readme_store = (Inr 1, fresh_state, h')
              \<and> arrays h' 1 = ys \<and> arrays h' 0 = tl readme_pool))"
proof -
  have n: "\<forall>j \<in> set (tl readme_pool). is_number (deadline j) \<and> is_number (compute j)"
    by (simp add: readme_pool_def)
  have st: "arrays readme_store 0 = tl readme_pool \<and> 0 < allocated readme_store"
    by (simp add: readme_store_def)
  have al: "allocated readme_store = 1" by (simp add: readme_store_def)
  from sortJobs_edf_order[OF n, of fresh_state] obtain ys where
    ys: "sortJobs (tl readme_pool) ''edf'' fresh_state = (Inr ys, fresh_state)"
    and ord: "\<forall>i j. i < length ys \<and> j < length ys \<and>
        (js_lt (deadline (ys ! i)) (deadline (ys ! j)) \<or>
         (deadline (ys ! i) = deadline (ys ! j) \<and> js_lt (compute (ys ! i)) (compute (ys ! j))))
        \<longrightarrow> i < j"
    and store: "\<forall>h a. arrays h a = tl readme_pool \<and> a < allocated h \<longrightarrow>
        (\<exists>h'. sortJobs_in_store a ''edf'' fresh_state h = (Inr (allocated h), fresh_state, h')
              \<and> arrays h' (allocated h) = ys \<and> arrays h' a = tl readme_pool
              \<and> (\<forall>b. b \<noteq> allocated h \<longrightarrow> arrays h' b = arrays h b))"
    by blast
  from store[rule_format, of readme_store 0] st al
  have inst: "\<exists>h'. sortJobs_in_store 0 ''edf'' fresh_state readme_store = (Inr 1, fresh_state, h')
              \<and> arrays h' 1 = ys \<and> arrays h' 0 = tl readme_pool"
    by auto
  have ev: "fst (sortJobs (tl readme_pool) ''edf'' fresh_state) =
      Inr [\<lparr>job_id = 14, compute = Fin 3, deadline = Fin 5, addedDay = Fin 1\<rparr>,
           \<lparr>job_id = 13, compute = Fin 15, deadline = Fin 5, addedDay = Fin 1\<rparr>,
           \<lparr>job_id = 16, compute = Fin 12, deadline = Fin 6, addedDay = Fin 1\<rparr>,
           \<lparr>job_id = 15, compute = Fin 10, deadline = Fin 7, addedDay = Fin 1\<rparr>,
           \<lparr>job_id = 17, compute = Fin 5, deadline = Fin 8, addedDay = Fin 1\<rparr>]"
    by (simp add: sortJobs_def edf_cmp_def js_ne_def readme_pool_def)
  with ys have val: "ys = [\<lparr>job_id = 14, compute = Fin 3, deadline = Fin 5, addedDay = Fin 1\<rparr>,
           \<lparr>job_id = 13, compute = Fin 15, deadline = Fin 5, addedDay = Fin 1\<rparr>,
           \<lparr>job_id = 16, compute = Fin 12, deadline = Fin 6, addedDay = Fin 1\<rparr>,
           \<lparr>job_id = 15, compute = Fin 10, deadline = Fin 7, addedDay = Fin 1\<rparr>,
           \<lparr>job_id = 17, compute = Fin 5, deadline = Fin 8, addedDay = Fin 1\<rparr>]"
    by simp
  from ord[rule_format, of 0 1] val have "(0::nat) < 1" by simp
  have f: "map job_id ys = [14, 13, 16, 15, 17]" "0 < length ys" "1 < length ys"
    "deadline (ys ! 0) = deadline (ys ! 1)" "js_lt (compute (ys ! 0)) (compute (ys ! 1))"
    using val by simp_all
  have s0: "arrays readme_store 0 = tl readme_pool" "0 < allocated readme_store"
    using st by simp_all
  have nl: "list_all (\<lambda>j. is_number (deadline j) \<and> is_number (compute j)) (tl readme_pool)"
    using n by (simp add: list_all_iff)
  show ?thesis
    by (intro conjI exI[of _ ys]) (rule nl ys f s0 inst)+
qed

subsection \<open>The random strategy and the effect of sorting on the state\<close>

lemma Math_random_rng: "rng (snd (Math_random s)) = rng s"
  by (simp add: Math_random_def)

lemma draw_index_le:
  assumes "0 \<le> r" "r < 1"
  shows "nat \<lfloor>r * (real (Suc k) + 1)\<rfloor> \<le> Suc k"
proof -
  have "r * (real (Suc k) + 1) < real (Suc k) + 1"
    using assms by (simp add: mult_less_cancel_right1)
  then have "\<lfloor>r * (real (Suc k) + 1)\<rfloor> < int (Suc k) + 1"
    by (simp add: floor_less_iff)
  then show ?thesis by linarith
qed

lemma mset_shuffle_loop:
  "valid_rng (rng s) \<Longrightarrow> k < length copy \<Longrightarrow> mset (fst (shuffle_loop k copy s)) = mset copy"
proof (induction k copy s rule: shuffle_loop.induct)
  case (1 copy s)
  then show ?case by simp
next
  case (2 k copy s)
  let ?r = "rng s (drawn s)"
  let ?j = "nat \<lfloor>?r * (real (Suc k) + 1)\<rfloor>"
  let ?s1 = "s\<lparr>drawn := Suc (drawn s)\<rparr>"
  let ?copy = "copy[Suc k := copy ! ?j, ?j := copy ! Suc k]"
  from "2.prems" have r: "0 \<le> ?r" "?r < 1" by (auto simp: valid_rng_def)
  then have j: "?j < length copy" using draw_index_le[of ?r k] "2.prems" by linarith
  have sw: "mset ?copy = mset copy"
    using mset_swap[of ?j copy "Suc k"] j "2.prems" by simp
  have "mset (fst (shuffle_loop k ?copy ?s1)) = mset ?copy"
    using "2.IH"[of "(?r, ?s1)" ?r ?s1 ?j] "2.prems" by (simp add: Math_random_def)
  with sw show ?case by (simp add: Math_random_def Let_def)
qed

lemma shuffle_loop_state: "snd (shuffle_loop k copy s) = s\<lparr>drawn := drawn s + k\<rparr>"
  by (induction k copy s rule: shuffle_loop.induct) (auto simp: Math_random_def Let_def)

lemma mset_sortJobs:
  assumes "valid_rng (rng s)" "sortJobs jobs strat s = (Inr ys, s')"
  shows "mset ys = mset jobs"
proof (cases "strat = ''random''")
  case True
  have "mset (fst (shuffle_loop (length jobs - 1) jobs s)) = mset jobs"
  proof (cases jobs)
    case Nil
    then show ?thesis by simp
  next
    case (Cons a as)
    then show ?thesis using mset_shuffle_loop[OF assms(1), of "length jobs - 1" jobs] by simp
  qed
  with True assms(2) show ?thesis
    by (auto simp: sortJobs_def split: prod.splits)
next
  case False
  with assms(2) show ?thesis
    by (auto simp: sortJobs_def mset_js_sort split: if_splits)
qed

lemma sortJobs_state:
  "snd (sortJobs jobs strat s) = s\<lparr>drawn := drawn (snd (sortJobs jobs strat s))\<rparr>"
  using shuffle_loop_state[of "length jobs - 1" jobs s]
  by (auto simp: sortJobs_def split: prod.splits)

lemma sortJobs_known:
  "strat \<in> {''edf'', ''lcf'', ''random''} \<Longrightarrow> \<exists>ys. fst (sortJobs jobs strat s) = Inr ys"
  by (auto simp: sortJobs_def split: prod.splits)

lemma sortJobs_unknown:
  "strat \<notin> {''edf'', ''lcf'', ''random''} \<Longrightarrow>
     sortJobs jobs strat s = (Inl (UnknownStrategy strat), s)"
  by (auto simp: sortJobs_def)

lemma filter_ids_append:
  "distinct (map f (as @ bs)) \<Longrightarrow> filter (\<lambda>x. f x \<notin> set (map f as)) (as @ bs) = bs"
  by (auto simp: filter_empty_conv filter_id_conv)

lemma ids_take_partition:
  assumes d: "distinct (map f xs)" and p: "mset srt = mset xs"
  shows "mset (map f (take n srt))
       + mset (map f (filter (\<lambda>x. f x \<notin> set (map f (take n srt))) xs)) = mset (map f xs)"
proof -
  let ?Q = "\<lambda>x. f x \<notin> set (map f (take n srt))"
  have ids: "mset (map f srt) = mset (map f xs)" using p by simp
  then have "distinct (map f srt)" using d mset_eq_imp_distinct_iff by blast
  then have "distinct (map f (take n srt @ drop n srt))" by simp
  then have "filter ?Q (take n srt @ drop n srt) = drop n srt"
    by (rule filter_ids_append)
  then have flt: "filter ?Q srt = drop n srt" by simp
  have "mset (filter ?Q xs) = mset (filter ?Q srt)" using p by simp
  with flt have rest: "mset (map f (filter ?Q xs)) = mset (map f (drop n srt))" by simp
  have "mset (map f (take n srt)) + mset (map f (drop n srt))
      = mset (map f (take n srt @ drop n srt))" by (simp del: append_take_drop_id)
  then have "mset (map f (take n srt)) + mset (map f (drop n srt)) = mset (map f srt)"
    by simp
  with rest ids show ?thesis by simp
qed

lemma sortJobs_pool: "jobPool (snd (sortJobs jobs strat s)) = jobPool s"
  using sortJobs_state[of jobs strat s] by (metis state.select_convs(1) state.surjective state.update_convs(5))

lemma sortJobs_counter: "jobIdCounter (snd (sortJobs jobs strat s)) = jobIdCounter s"
  using sortJobs_state[of jobs strat s] by (metis state.select_convs(2) state.surjective state.update_convs(5))

lemma ids_expiry_partition:
  assumes "today \<noteq> NaN" "\<forall>j \<in> set pool. deadline j \<noteq> NaN"
  shows "mset (map job_id (filter (\<lambda>j. js_lt (deadline j) today) pool))
     + mset (map job_id (filter (\<lambda>j. js_le today (deadline j)) pool)) = mset (map job_id pool)"
  using assms(2)
proof (induction pool)
  case Nil
  show ?case by simp
next
  case (Cons j pool)
  then have "deadline j \<noteq> NaN" by simp
  with assms(1) have "js_lt (deadline j) today \<or> js_le today (deadline j)"
    by (rule js_lt_or_le[rotated])
  moreover have "js_lt (deadline j) today \<Longrightarrow> \<not> js_le today (deadline j)"
    by (rule js_lt_not_le)
  ultimately show ?case using Cons by auto
qed

lemma removeExpiredJobs_counter:
  "jobIdCounter (snd (removeExpiredJobs today s)) = jobIdCounter s"
  by (simp add: removeExpiredJobs_def Let_def)

lemma runScheduler_counter:
  "jobIdCounter (snd (runScheduler today N strat hist s)) = jobIdCounter s"
proof -
  let ?s1 = "s\<lparr>jobPool := filter (\<lambda>j. js_le today (deadline j)) (jobPool s)\<rparr>"
  have "jobIdCounter (snd (sortJobs (jobPool ?s1) strat ?s1)) = jobIdCounter s"
    using sortJobs_counter[of "jobPool ?s1" strat ?s1] by simp
  then show ?thesis
    by (auto simp: runScheduler_def removeExpiredJobs_def Let_def
        split: prod.splits sum.splits)
qed


subsection \<open>One scheduling round\<close>

text \<open>The README walkthrough: day 5, batch size 3, \<open>'edf'\<close>.\<close>

lemma runScheduler_readme_example:
  "fst (runScheduler (Fin 5) 3 ''edf'' [] readme_state) =
     Inr \<lparr>selected = [\<lparr>job_id = 14, compute = Fin 3, deadline = Fin 5, addedDay = Fin 1\<rparr>,
                       \<lparr>job_id = 13, compute = Fin 15, deadline = Fin 5, addedDay = Fin 1\<rparr>,
                       \<lparr>job_id = 16, compute = Fin 12, deadline = Fin 6, addedDay = Fin 1\<rparr>],
          remaining = [\<lparr>job_id = 15, compute = Fin 10, deadline = Fin 7, addedDay = Fin 1\<rparr>,
                       \<lparr>job_id = 17, compute = Fin 5, deadline = Fin 8, addedDay = Fin 1\<rparr>],
          expired = [\<lparr>job_id = 12, compute = Fin 8, deadline = Fin 4, addedDay = Fin 1\<rparr>],
          totalCompute = Fin 30, backlogSize = 2, variance = Fin 0, day = Fin 5,
          strategy = ''edf''\<rparr>"
  by (simp add: runScheduler_def removeExpiredJobs_def sortJobs_def edf_cmp_def js_ne_def
      selectJobs_def calculateTotalCompute_def calculateBacklog_def calculateLoadVariance_def
      readme_state_def readme_pool_def Let_def)

text \<open>
  Claim C4 as stated fails on the code: \<open>addJob(5, NaN, 1)\<close> succeeds, and for the job it
  stores both \<open>deadline < today\<close> and \<open>deadline >= today\<close> are false, so the round of day 1
  drops it from the pool without listing it as expired, selected or remaining.
\<close>

theorem runScheduler_loses_nan_deadline:
  "jobPool nan_deadline_state =
     [\<lparr>job_id = 1, compute = Fin 5, deadline = NaN, addedDay = Fin 1\<rparr>]
   \<and> fst (runScheduler (Fin 1) 5 ''edf'' [] nan_deadline_state) =
       Inr \<lparr>selected = [], remaining = [], expired = [], totalCompute = Fin 0,
            backlogSize = 0, variance = Fin 0, day = Fin 1, strategy = ''edf''\<rparr>
   \<and> mset (map job_id (selected (projr (fst (runScheduler (Fin 1) 5 ''edf'' [] nan_deadline_state)))))
       + mset (map job_id (remaining (projr (fst (runScheduler (Fin 1) 5 ''edf'' [] nan_deadline_state)))))
       + mset (map job_id (expired (projr (fst (runScheduler (Fin 1) 5 ''edf'' [] nan_deadline_state)))))
       \<noteq> mset (map job_id (jobPool nan_deadline_state))"
  by (simp add: runScheduler_def removeExpiredJobs_def sortJobs_def selectJobs_def
      calculateTotalCompute_def calculateBacklog_def calculateLoadVariance_def
      nan_deadline_state_def addJob_def fresh_state_def Let_def)

text \<open>A day that is NaN does the same to every job of the pool.\<close>

lemma runScheduler_nan_today_loses_all:
  "fst (runScheduler NaN 3 ''edf'' [] readme_state) =
     Inr \<lparr>selected = [], remaining = [], expired = [], totalCompute = Fin 0,
          backlogSize = 0, variance = Fin 0, day = NaN, strategy = ''edf''\<rparr>
   \<and> jobPool (snd (runScheduler NaN 3 ''edf'' [] readme_state)) = []"
  by (simp add: runScheduler_def removeExpiredJobs_def sortJobs_def selectJobs_def
      calculateTotalCompute_def calculateBacklog_def calculateLoadVariance_def
      readme_state_def readme_pool_def Let_def)

text \<open>
  Claim C4, as the code has it. For a pool whose job ids are pairwise distinct (the pool
  is keyed by id, and every pool built by \<open>addJob\<close> is so) and whose deadlines are not NaN,
  any day that is not NaN, any batch size and any of the three strategies, \<open>runScheduler\<close>
  returns a result, and the ids of its selected, remaining and expired jobs together are,
  as a multiset, the ids of the pool before the call.
\<close>

theorem runScheduler_accounts_for_every_job:
  assumes d: "distinct (map job_id (jobPool s))"
    and v: "valid_rng (rng s)"
    and k: "strat \<in> {''edf'', ''lcf'', ''random''}"
    and t: "today \<noteq> NaN"
    and nn: "\<forall>j \<in> set (jobPool s). deadline j \<noteq> NaN"
  shows "\<exists>r s'. runScheduler today N strat hist s = (Inr r, s')
           \<and> mset (map job_id (selected r)) + mset (map job_id (remaining r))
               + mset (map job_id (expired r)) = mset (map job_id (jobPool s))"
proof -
  let ?P1 = "filter (\<lambda>j. js_le today (deadline j)) (jobPool s)"
  let ?s1 = "s\<lparr>jobPool := ?P1\<rparr>"
  obtain ys where ys: "fst (sortJobs ?P1 strat ?s1) = Inr ys"
    using sortJobs_known[OF k] by blast
  define s2 where "s2 = snd (sortJobs ?P1 strat ?s1)"
  have srt: "sortJobs ?P1 strat ?s1 = (Inr ys, s2)"
    using ys by (simp add: s2_def prod_eq_iff)
  have pool2: "jobPool s2 = ?P1"
    using sortJobs_pool[of ?P1 strat ?s1] by (simp add: s2_def)
  have perm: "mset ys = mset ?P1"
    using mset_sortJobs[of ?s1 ?P1 strat ys s2] v srt by simp
  have "distinct (map job_id ?P1)" using d by (rule distinct_map_filter)
  from ids_take_partition[OF this perm, of "nat (max 0 N)"]
  have part: "mset (map job_id (take (nat (max 0 N)) ys))
       + mset (map job_id (filter (\<lambda>x. job_id x \<notin> set (map job_id (take (nat (max 0 N)) ys))) ?P1))
       = mset (map job_id ?P1)" .
  show ?thesis
    using srt pool2 part ids_expiry_partition[OF t nn]
    by (simp add: runScheduler_def removeExpiredJobs_def Let_def selectJobs_def
        add.commute)
qed

theorem runScheduler_accounts_for_every_job_witness:
  "distinct (map job_id (jobPool readme_state)) \<and> valid_rng (rng readme_state)
   \<and> ''random'' \<in> {''edf'', ''lcf'', ''random''} \<and> Fin 5 \<noteq> NaN
   \<and> list_all (\<lambda>j. deadline j \<noteq> NaN) (jobPool readme_state)
   \<and> (\<exists>r s'. runScheduler (Fin 5) 3 ''random'' [] readme_state = (Inr r, s')
         \<and> mset (map job_id (selected r)) + mset (map job_id (remaining r))
             + mset (map job_id (expired r)) = mset [12, 13, 14, 15, 16, 17])"
proof -
  have d: "distinct (map job_id (jobPool readme_state))"
    by (simp add: readme_state_def readme_pool_def)
  have v: "valid_rng (rng readme_state)"
    by (simp add: readme_state_def valid_rng_def)
  have k: "''random'' \<in> {''edf'', ''lcf'', ''random''}" by simp
  have t: "Fin 5 \<noteq> NaN" by simp
  have nn: "\<forall>j \<in> set (jobPool readme_state). deadline j \<noteq> NaN"
    by (simp add: readme_state_def readme_pool_def)
  have ids: "map job_id (jobPool readme_state) = [12, 13, 14, 15, 16, 17]"
    by (simp add: readme_state_def readme_pool_def)
  have nl: "list_all (\<lambda>j. deadline j \<noteq> NaN) (jobPool readme_state)"
    using nn by (simp add: list_all_iff)
  from runScheduler_accounts_for_every_job[OF d v k t nn, of 3 "[]"] d v k t nl
  show ?thesis unfolding ids by blast
qed

text \<open>
  Claim C2, as the code has it. For a strategy name other than \<open>'edf'\<close>, \<open>'lcf'\<close> and
  \<open>'random'\<close>, \<open>sortJobs\<close> throws the unknown-strategy error and \<open>runScheduler\<close> throws it
  too: no result is returned and no strategy is substituted. The throw comes after
  \<open>removeExpiredJobs\<close>, so the pool is left with the jobs for which \<open>deadline >= today\<close>
  holds, the expired jobs removed; nothing else of the state changes.
\<close>

theorem runScheduler_unknown_strategy:
  assumes "strat \<notin> {''edf'', ''lcf'', ''random''}"
  shows "sortJobs jobs strat s = (Inl (UnknownStrategy strat), s)
       \<and> runScheduler today N strat hist s =
           (Inl (UnknownStrategy strat),
            s\<lparr>jobPool := filter (\<lambda>j. js_le today (deadline j)) (jobPool s)\<rparr>)"
  using assms by (simp add: runScheduler_def removeExpiredJobs_def Let_def sortJobs_def)

theorem runScheduler_unknown_strategy_witness:
  "''fifo'' \<notin> {''edf'', ''lcf'', ''random''}
   \<and> runScheduler (Fin 5) 3 ''fifo'' [] readme_state =
       (Inl (UnknownStrategy ''fifo''), readme_state\<lparr>jobPool := tl readme_pool\<rparr>)"
  using runScheduler_unknown_strategy[where strat="''fifo''" and today="Fin 5" and N=3
      and hist="[]" and s=readme_state and jobs="[]"]
  by (simp add: readme_state_def readme_pool_def)

text \<open>
  The claim as stated fails: with job J12 (deadline 4) in the pool, the aborted round of
  day 5 leaves a pool that is not the pool before the call.
\<close>

theorem runScheduler_unknown_strategy_drops_expired:
  "fst (runScheduler (Fin 5) 3 ''fifo'' [] readme_state) = Inl (UnknownStrategy ''fifo'')
   \<and> jobPool (snd (runScheduler (Fin 5) 3 ''fifo'' [] readme_state)) \<noteq> jobPool readme_state"
  by (simp add: runScheduler_def removeExpiredJobs_def Let_def sortJobs_def readme_state_def
      readme_pool_def)

subsection \<open>Job ids over a pool lifetime\<close>

lemma ids_ok_same_counter:
  "ids_ok s1 r \<Longrightarrow> jobIdCounter s1 = jobIdCounter s \<Longrightarrow> ids_ok s r"
  by (simp add: ids_ok_def)

lemma ids_ok_admit:
  assumes "ids_ok s1 r" "jobIdCounter s1 = Suc (jobIdCounter s)" "job_id j = jobIdCounter s"
  shows "ids_ok s (j # fst r, snd r)"
  using assms unfolding ids_ok_def by fastforce

lemma lifetime_ids: "ids_ok s (lifetime calls s)"
proof (induction calls arbitrary: s)
  case Nil
  show ?case by (simp add: ids_ok_def)
next
  case (Cons call calls)
  show ?case
  proof (cases call)
    case (AddJob c d today)
    show ?thesis
    proof (cases "addJob c d today s")
      case (Pair res s1)
      show ?thesis
      proof (cases res)
        case (Inl e)
        with Pair have "s1 = s" using addJob_fail_state by blast
        with Pair Inl AddJob have "lifetime (call # calls) s = lifetime calls s" by simp
        with Cons.IH[of s] show ?thesis by simp
      next
        case (Inr j)
        with Pair have id: "job_id j = jobIdCounter s" "jobIdCounter s1 = Suc (jobIdCounter s)"
          using addJob_id by blast+
        have "lifetime (call # calls) s = (j # fst (lifetime calls s1), snd (lifetime calls s1))"
          using Pair Inr AddJob by (simp add: split_beta)
        with ids_ok_admit[OF Cons.IH[of s1] id(2) id(1)] show ?thesis by simp
      qed
    qed
  next
    case (RemoveExpiredJobs today)
    with ids_ok_same_counter[OF Cons.IH[of "snd (removeExpiredJobs today s)"]
        removeExpiredJobs_counter]
    show ?thesis by simp
  next
    case (RunScheduler today N strat hist)
    with ids_ok_same_counter[OF Cons.IH[of "snd (runScheduler today N strat hist s)"]
        runScheduler_counter]
    show ?thesis by simp
  qed
qed


text \<open>
  Claim C5. Over any sequence of calls without a reset, the ids of the admitted jobs
  are strictly increasing in admission order, hence pairwise distinct. \<open>resetJobPool\<close>
  empties the pool and sets the counter to 1, and the first job admitted after a reset
  has id 1.
\<close>

theorem job_ids_strictly_increasing:
  "sorted_wrt (<) (map job_id (fst (lifetime calls s)))
   \<and> distinct (map job_id (fst (lifetime calls s)))
   \<and> jobPool (resetJobPool s) = [] \<and> jobIdCounter (resetJobPool s) = 1
   \<and> (\<forall>j js. fst (lifetime calls (resetJobPool s)) = j # js \<longrightarrow> job_id j = 1)"
proof -
  have a: "sorted_wrt (<) (map job_id (fst (lifetime calls s)))"
    using lifetime_ids[of s calls] by (simp add: ids_ok_def)
  then have b: "distinct (map job_id (fst (lifetime calls s)))"
    using strict_sorted_iff[of "map job_id (fst (lifetime calls s))"] by blast
  have c: "job_id j = 1" if "fst (lifetime calls (resetJobPool s)) = j # js" for j js
    using lifetime_ids[of "resetJobPool s" calls] that by (simp add: resetJobPool_def ids_ok_def)
  show ?thesis using a b c by (simp add: resetJobPool_def)
qed


theorem job_ids_strictly_increasing_witness:
  "fst (lifetime [AddJob (Fin 0) (Fin 3) (Fin 1), AddJob (Fin 4) (Fin 3) (Fin 1),
                  RemoveExpiredJobs (Fin 2), AddJob (Fin 2) (Fin 5) (Fin 2)]
        (resetJobPool readme_state))
     = [\<lparr>job_id = 1, compute = Fin 4, deadline = Fin 3, addedDay = Fin 1\<rparr>,
        \<lparr>job_id = 2, compute = Fin 2, deadline = Fin 5, addedDay = Fin 2\<rparr>]
   \<and> job_id (hd (fst (lifetime [AddJob (Fin 0) (Fin 3) (Fin 1), AddJob (Fin 4) (Fin 3) (Fin 1),
                  RemoveExpiredJobs (Fin 2), AddJob (Fin 2) (Fin 5) (Fin 2)]
        (resetJobPool readme_state)))) = 1"
  using job_ids_strictly_increasing[of
      "[AddJob (Fin 0) (Fin 3) (Fin 1), AddJob (Fin 4) (Fin 3) (Fin 1),
        RemoveExpiredJobs (Fin 2), AddJob (Fin 2) (Fin 5) (Fin 2)]" readme_state]
  by (simp add: resetJobPool_def readme_state_def addJob_def removeExpiredJobs_def Let_def)

subsection \<open>Pools built by the operations have distinct ids\<close>

lemma pool_inv_reset: "pool_inv (resetJobPool s)"
  by (simp add: pool_inv_def resetJobPool_def)

lemma pool_inv_addJob: "pool_inv s \<Longrightarrow> pool_inv (snd (addJob c d today s))"
  by (fastforce simp: pool_inv_def addJob_def Let_def)

lemma pool_inv_filter:
  "pool_inv s \<Longrightarrow> jobPool s' = filter Q (jobPool s) \<Longrightarrow> jobIdCounter s' = jobIdCounter s
     \<Longrightarrow> pool_inv s'"
  by (simp add: pool_inv_def distinct_map_filter)

lemma pool_inv_removeExpiredJobs: "pool_inv s \<Longrightarrow> pool_inv (snd (removeExpiredJobs today s))"
  by (rule pool_inv_filter[where Q="\<lambda>j. js_le today (deadline j)"])
     (simp_all add: removeExpiredJobs_def Let_def)

lemma runScheduler_pool:
  "\<exists>Q. jobPool (snd (runScheduler today N strat hist s)) = filter Q (jobPool s)"
proof -
  let ?P1 = "filter (\<lambda>j. js_le today (deadline j)) (jobPool s)"
  let ?s1 = "s\<lparr>jobPool := ?P1\<rparr>"
  obtain res s2 where srt: "sortJobs ?P1 strat ?s1 = (res, s2)"
    by (cases "sortJobs ?P1 strat ?s1") simp
  then have pool2: "jobPool s2 = ?P1"
    using sortJobs_pool[of ?P1 strat ?s1] by simp
  show ?thesis
  proof (cases res)
    case (Inl e)
    with srt pool2 show ?thesis
      by (auto simp: runScheduler_def removeExpiredJobs_def Let_def)
  next
    case (Inr ys)
    let ?Q = "\<lambda>j. job_id j \<notin> set (map job_id (selectJobs ys N))"
    have "jobPool (snd (runScheduler today N strat hist s))
        = filter (\<lambda>j. js_le today (deadline j) \<and> ?Q j) (jobPool s)"
      using Inr srt pool2 by (simp add: runScheduler_def removeExpiredJobs_def Let_def)
    then show ?thesis by blast
  qed
qed

lemma pool_inv_runScheduler: "pool_inv s \<Longrightarrow> pool_inv (snd (runScheduler today N strat hist s))"
  using runScheduler_pool[of today N strat hist s] runScheduler_counter[of today N strat hist s]
    pool_inv_filter by blast

lemma pool_inv_lifetime: "pool_inv s \<Longrightarrow> pool_inv (snd (lifetime calls s))"
proof (induction calls arbitrary: s)
  case Nil
  then show ?case by simp
next
  case (Cons call calls)
  show ?case
  proof (cases call)
    case (AddJob c d today)
    obtain res s1 where a: "addJob c d today s = (res, s1)" by (cases "addJob c d today s") simp
    with pool_inv_addJob[OF Cons.prems, of c d today] have "pool_inv s1" by simp
    from Cons.IH[OF this] a AddJob show ?thesis
      by (cases res) (simp_all add: split_beta)
  next
    case (RemoveExpiredJobs today)
    with Cons.IH[OF pool_inv_removeExpiredJobs[OF Cons.prems]] show ?thesis by simp
  next
    case (RunScheduler today N strat hist)
    with Cons.IH[OF pool_inv_runScheduler[OF Cons.prems]] show ?thesis by simp
  qed
qed

lemma lifetime_pool_ids_distinct:
  "distinct (map job_id (jobPool (snd (lifetime calls (resetJobPool s)))))"
  using pool_inv_lifetime[OF pool_inv_reset] by (simp add: pool_inv_def)

text \<open>The same holds along the simulation driver, which admits through \<open>addJob\<close> only.\<close>

lemma pool_inv_drawn: "pool_inv (s\<lparr>drawn := n\<rparr>) = pool_inv s"
  by (simp add: pool_inv_def)

lemma pool_inv_history: "pool_inv (s\<lparr>computeHistory := h\<rparr>) = pool_inv s"
  by (simp add: pool_inv_def)

lemma pool_inv_generateRandomJobs_loop:
  "pool_inv s \<Longrightarrow>
     pool_inv (snd (generateRandomJobs_loop i cnt today maxOffset maxCompute created s))"
proof (induction i cnt today maxOffset maxCompute created s rule: generateRandomJobs_loop.induct)
  case (1 i cnt today maxOffset maxCompute created s)
  show ?case
  proof (cases "i < cnt")
    case False
    then show ?thesis using "1.prems" by (subst generateRandomJobs_loop.simps) simp
  next
    case True
    let ?r1 = "rng s (drawn s)"
    let ?s1 = "s\<lparr>drawn := Suc (drawn s)\<rparr>"
    let ?r2 = "rng s (Suc (drawn s))"
    let ?s2 = "s\<lparr>drawn := Suc (Suc (drawn s))\<rparr>"
    let ?c = "Fin (of_int \<lfloor>?r1 * maxCompute\<rfloor> + 1)"
    let ?d = "js_add today (Fin (of_int \<lfloor>?r2 * maxOffset\<rfloor>))"
    obtain res s3 where a: "addJob ?c ?d today ?s2 = (res, s3)"
      by (cases "addJob ?c ?d today ?s2") simp
    have inv3: "pool_inv s3"
      using pool_inv_addJob[of ?s2 ?c ?d today] "1.prems" a by (simp add: pool_inv_drawn)
    have m1: "(?r1, ?s1) = Math_random s" by (simp add: Math_random_def)
    have m2: "(?r2, ?s2) = Math_random ?s1" by (simp add: Math_random_def)
    show ?thesis
    proof (cases res)
      case (Inl e)
      have "pool_inv (snd (generateRandomJobs_loop (i + 1) cnt today maxOffset maxCompute
               created s3))"
        by (rule "1.IH"(1)[OF True refl m1 refl refl m2 refl refl _ refl inv3])
           (simp add: a Inl)
      moreover have "generateRandomJobs_loop i cnt today maxOffset maxCompute created s
          = generateRandomJobs_loop (i + 1) cnt today maxOffset maxCompute created s3"
        using True a Inl
        by (subst generateRandomJobs_loop.simps) (simp add: Math_random_def Let_def)
      ultimately show ?thesis by simp
    next
      case (Inr j)
      have "pool_inv (snd (generateRandomJobs_loop (i + 1) cnt today maxOffset maxCompute
               (created @ [j]) s3))"
        by (rule "1.IH"(2)[OF True refl m1 refl refl m2 refl refl _ refl inv3])
           (simp add: a Inr)
      moreover have "generateRandomJobs_loop i cnt today maxOffset maxCompute created s
          = generateRandomJobs_loop (i + 1) cnt today maxOffset maxCompute (created @ [j]) s3"
        using True a Inr
        by (subst generateRandomJobs_loop.simps) (simp add: Math_random_def Let_def)
      ultimately show ?thesis by simp
    qed
  qed
qed

lemma pool_inv_simulateDay:
  assumes "pool_inv s"
  shows "pool_inv (snd (simulateDay today N strat b s))"
proof -
  let ?s1 = "s\<lparr>drawn := Suc (drawn s)\<rparr>"
  let ?cnt = "max 1 (b + \<lfloor>rng s (drawn s) * 4\<rfloor> - 1)"
  obtain inc s2 where g: "generateRandomJobs ?cnt today 7 20 ?s1 = (inc, s2)"
    by (cases "generateRandomJobs ?cnt today 7 20 ?s1") simp
  have "pool_inv s2"
    using pool_inv_generateRandomJobs_loop[of ?s1 0 ?cnt today 7 20 "[]"] assms g
    by (simp add: generateRandomJobs_def pool_inv_drawn)
  from pool_inv_runScheduler[OF this, of today N strat "computeHistory s2"]
  show ?thesis
    using g
    by (cases "runScheduler today N strat (computeHistory s2) s2")
       (auto simp: simulateDay_def Math_random_def Let_def pool_inv_history split: sum.splits)
qed

subsection \<open>One simulated day\<close>

lemma addJob_rng: "rng (snd (addJob c d today s)) = rng s"
  by (simp add: addJob_def Let_def)

lemma js_add_offset: "0 \<le> k \<Longrightarrow> \<not> js_lt (js_add today (Fin k)) today"
  by (cases today) auto

lemma generated_job_admitted:
  assumes "0 \<le> r1" "0 \<le> r2" "0 \<le> maxOffset" "0 \<le> maxCompute"
  shows "\<exists>j s'. addJob (Fin (of_int \<lfloor>r1 * maxCompute\<rfloor> + 1))
                  (js_add today (Fin (of_int \<lfloor>r2 * maxOffset\<rfloor>))) today s = (Inr j, s')"
proof -
  have "0 \<le> \<lfloor>r1 * maxCompute\<rfloor>" using assms by simp
  then have "(0::real) < of_int \<lfloor>r1 * maxCompute\<rfloor> + 1" by linarith
  then have c: "\<not> js_le (Fin (of_int \<lfloor>r1 * maxCompute\<rfloor> + 1)) (Fin 0)" by simp
  have "0 \<le> \<lfloor>r2 * maxOffset\<rfloor>" using assms by simp
  then have "(0::real) \<le> of_int \<lfloor>r2 * maxOffset\<rfloor>" by simp
  then have d: "\<not> js_lt (js_add today (Fin (of_int \<lfloor>r2 * maxOffset\<rfloor>))) today"
    by (rule js_add_offset)
  show ?thesis using c d by (simp add: addJob_def Let_def)
qed

lemma generateRandomJobs_loop_length:
  assumes "valid_rng (rng s)" "0 \<le> maxOffset" "0 \<le> maxCompute"
  shows "length (fst (generateRandomJobs_loop i cnt today maxOffset maxCompute created s))
           = length created + nat (cnt - i)
       \<and> rng (snd (generateRandomJobs_loop i cnt today maxOffset maxCompute created s)) = rng s"
  using assms
proof (induction i cnt today maxOffset maxCompute created s rule: generateRandomJobs_loop.induct)
  case (1 i cnt today maxOffset maxCompute created s)
  show ?case
  proof (cases "i < cnt")
    case False
    then show ?thesis by (subst (1 2) generateRandomJobs_loop.simps) simp
  next
    case True
    let ?r1 = "rng s (drawn s)"
    let ?s1 = "s\<lparr>drawn := Suc (drawn s)\<rparr>"
    let ?r2 = "rng s (Suc (drawn s))"
    let ?s2 = "s\<lparr>drawn := Suc (Suc (drawn s))\<rparr>"
    let ?c = "Fin (of_int \<lfloor>?r1 * maxCompute\<rfloor> + 1)"
    let ?d = "js_add today (Fin (of_int \<lfloor>?r2 * maxOffset\<rfloor>))"
    from "1.prems" have r: "0 \<le> ?r1" "0 \<le> ?r2" by (auto simp: valid_rng_def)
    from generated_job_admitted[OF r "1.prems"(2,3), of today ?s2]
    obtain j s3 where j: "addJob ?c ?d today ?s2 = (Inr j, s3)" by blast
    have rng3: "rng s3 = rng s" using addJob_rng[of ?c ?d today ?s2] j by simp
    have step: "generateRandomJobs_loop i cnt today maxOffset maxCompute created s
        = generateRandomJobs_loop (i + 1) cnt today maxOffset maxCompute (created @ [j]) s3"
      using True j
      by (subst generateRandomJobs_loop.simps) (simp add: Math_random_def Let_def)
    have IH: "length (fst (generateRandomJobs_loop (i + 1) cnt today maxOffset maxCompute (created @ [j]) s3))
           = length (created @ [j]) + nat (cnt - (i + 1))
       \<and> rng (snd (generateRandomJobs_loop (i + 1) cnt today maxOffset maxCompute (created @ [j]) s3)) = rng s3"
    proof (rule "1.IH"(2)[OF True refl _ refl refl _ refl refl _ refl])
      show "(?r1, ?s1) = Math_random s" by (simp add: Math_random_def)
      show "(?r2, ?s2) = Math_random ?s1" by (simp add: Math_random_def)
      show "(Inr j, s3) = addJob ?c ?d today ?s2" using j by simp
      show "valid_rng (rng s3)" using rng3 "1.prems"(1) by simp
      show "0 \<le> maxOffset" "0 \<le> maxCompute" using "1.prems" by simp_all
    qed
    show ?thesis unfolding step using IH rng3 True by (simp add: nat_diff_distrib)
  qed
qed


lemma extend_incoming: "incoming (dayResult.extend r \<lparr>incoming = inc\<rparr>) = inc"
  by (cases r) (simp add: dayResult.defs simResult.defs)

lemma extend_day: "day (dayResult.extend r \<lparr>incoming = inc\<rparr>) = day r"
  by (cases r) (simp add: dayResult.defs)

lemma runScheduler_known:
  assumes "strat \<in> {''edf'', ''lcf'', ''random''}"
  shows "\<exists>r s'. runScheduler today N strat hist s = (Inr r, s') \<and> day r = today"
proof -
  let ?P1 = "filter (\<lambda>j. js_le today (deadline j)) (jobPool s)"
  let ?s1 = "s\<lparr>jobPool := ?P1\<rparr>"
  obtain ys where ys: "fst (sortJobs ?P1 strat ?s1) = Inr ys"
    using sortJobs_known[OF assms] by blast
  obtain s2 where "sortJobs ?P1 strat ?s1 = (Inr ys, s2)"
    using ys by (cases "sortJobs ?P1 strat ?s1") simp
  then show ?thesis
    by (simp add: runScheduler_def removeExpiredJobs_def Let_def)
qed

lemma simulateDay_unfold:
  assumes g: "generateRandomJobs (max 1 (b + \<lfloor>rng s (drawn s) * 4\<rfloor> - 1)) today 7 20
               (s\<lparr>drawn := Suc (drawn s)\<rparr>) = (inc, s2)"
    and r: "runScheduler today N strat (computeHistory s2) s2 = (Inr r, s3)"
  shows "simulateDay today N strat b s =
           (Inr (dayResult.extend r \<lparr>incoming = inc\<rparr>),
            s3\<lparr>computeHistory := computeHistory s3 @ [totalCompute r]\<rparr>)"
  using g r by (simp add: simulateDay_def Math_random_def Let_def)

lemma simulateDay_known:
  assumes k: "strat \<in> {''edf'', ''lcf'', ''random''}"
  shows "\<exists>r s'. simulateDay today N strat b s = (Inr r, s') \<and> day r = today
           \<and> incoming r = fst (generateRandomJobs (max 1 (b + \<lfloor>rng s (drawn s) * 4\<rfloor> - 1))
                 today 7 20 (s\<lparr>drawn := Suc (drawn s)\<rparr>))"
proof -
  obtain inc s2 where g: "generateRandomJobs (max 1 (b + \<lfloor>rng s (drawn s) * 4\<rfloor> - 1)) today 7 20
               (s\<lparr>drawn := Suc (drawn s)\<rparr>) = (inc, s2)"
    by (cases "generateRandomJobs (max 1 (b + \<lfloor>rng s (drawn s) * 4\<rfloor> - 1)) today 7 20
               (s\<lparr>drawn := Suc (drawn s)\<rparr>)") simp
  obtain r s3 where r: "runScheduler today N strat (computeHistory s2) s2 = (Inr r, s3)"
    and d: "day r = today"
    using runScheduler_known[OF k] by blast
  show ?thesis
    using simulateDay_unfold[OF g r] d g by (simp add: extend_incoming extend_day)
qed

lemma jitter_range:
  assumes "0 \<le> r" "r < 1"
  shows "0 \<le> \<lfloor>r * 4\<rfloor> \<and> \<lfloor>r * 4\<rfloor> \<le> 3"
proof -
  have "r * 4 < 4" using assms by simp
  then have "\<lfloor>r * 4\<rfloor> < 4" by (simp add: floor_less_iff)
  moreover have "0 \<le> \<lfloor>r * 4\<rfloor>" using assms by simp
  ultimately show ?thesis by simp
qed

text \<open>
  Claim C3. The arrival count of \<open>simulateDay\<close> should be the base count jittered by
  \<open>+/-2\<close> (the code's own comment), every value from \<open>b - 2\<close> to \<open>b + 2\<close> being drawn for
  some outcome. The code draws \<open>b + floor(random * 4) - 1\<close>: with a draw \<open>u\<close> in \<open>[0, 1)\<close>
  and a recognised strategy, exactly \<open>max 1 (b + floor(4u) - 1)\<close> jobs arrive, a number
  between \<open>max 1 (b - 1)\<close> and \<open>max 1 (b + 2)\<close>, and never \<open>b - 2\<close> when \<open>b\<close> is 3 or more.
\<close>

theorem simulateDay_arrival_count:
  assumes v: "valid_rng (rng s)" and k: "strat \<in> {''edf'', ''lcf'', ''random''}"
  shows "\<exists>r s'. simulateDay today N strat b s = (Inr r, s')
           \<and> int (length (incoming r)) = max 1 (b + \<lfloor>rng s (drawn s) * 4\<rfloor> - 1)
           \<and> max 1 (b - 1) \<le> int (length (incoming r))
           \<and> int (length (incoming r)) \<le> max 1 (b + 2)
           \<and> (3 \<le> b \<longrightarrow> int (length (incoming r)) \<noteq> b - 2)"
proof -
  let ?cnt = "max 1 (b + \<lfloor>rng s (drawn s) * 4\<rfloor> - 1)"
  let ?s1 = "s\<lparr>drawn := Suc (drawn s)\<rparr>"
  obtain r s' where r: "simulateDay today N strat b s = (Inr r, s')"
    and inc: "incoming r = fst (generateRandomJobs ?cnt today 7 20 ?s1)"
    using simulateDay_known[OF k] by blast
  have "valid_rng (rng ?s1)" using v by simp
  from generateRandomJobs_loop_length[OF this, of 7 20 0 ?cnt today "[]"]
  have "length (incoming r) = nat ?cnt"
    using inc by (simp add: generateRandomJobs_def)
  then have len: "int (length (incoming r)) = ?cnt" by simp
  define q where "q = \<lfloor>rng s (drawn s) * 4\<rfloor>"
  have j: "0 \<le> q" "q \<le> 3"
    using jitter_range[of "rng s (drawn s)"] v by (simp_all add: valid_rng_def q_def)
  have lenq: "int (length (incoming r)) = max 1 (b + q - 1)"
    using len by (simp only: q_def)
  have bounds: "max 1 (b - 1) \<le> int (length (incoming r))
      \<and> int (length (incoming r)) \<le> max 1 (b + 2)
      \<and> (3 \<le> b \<longrightarrow> int (length (incoming r)) \<noteq> b - 2)"
    using lenq j by (auto simp: max_def)
  from r len bounds show ?thesis by blast
qed

theorem simulateDay_arrival_count_witness:
  "valid_rng (rng fresh_state) \<and> ''edf'' \<in> {''edf'', ''lcf'', ''random''}
   \<and> (\<exists>r s'. simulateDay (Fin 1) 5 ''edf'' 5 fresh_state = (Inr r, s')
         \<and> int (length (incoming r)) = 4 \<and> (3::int) \<le> 5 \<and> int (length (incoming r)) \<noteq> 5 - 2)"
proof -
  have v: "valid_rng (rng fresh_state)" by (simp add: fresh_state_def valid_rng_def)
  have k: "''edf'' \<in> {''edf'', ''lcf'', ''random''}" by simp
  have z: "rng fresh_state (drawn fresh_state) = 0" by (simp add: fresh_state_def)
  from simulateDay_arrival_count[OF v k, of "Fin 1" 5 5] v k z
  show ?thesis by auto
qed


subsection \<open>Multi-day runs and the comparison of strategies\<close>

lemma simulateMultipleDays_loop_days:
  assumes k: "strat \<in> {''edf'', ''lcf'', ''random''}"
  shows "\<exists>rs s'. simulateMultipleDays_loop d days N strat jobsPerDay results s
                    = (Inr (results @ rs), s')
               \<and> map day rs = map (\<lambda>d. Fin (of_int d)) [d..days]"
  using k
proof (induction d days N strat jobsPerDay results s rule: simulateMultipleDays_loop.induct)
  case (1 d days N strat jobsPerDay results s)
  note k = "1.prems"
  show ?case
  proof (cases "d \<le> days")
    case False
    then show ?thesis by (subst simulateMultipleDays_loop.simps) simp
  next
    case True
    obtain r s1 where r: "simulateDay (Fin (of_int d)) N strat jobsPerDay s = (Inr r, s1)"
      and dr: "day r = Fin (of_int d)"
      using simulateDay_known[OF k] by blast
    from "1.IH"[OF True r[symmetric] refl] k
    obtain rs s' where rs: "simulateMultipleDays_loop (d + 1) days N strat jobsPerDay
                              (results @ [r]) s1 = (Inr ((results @ [r]) @ rs), s')"
      and days: "map day rs = map (\<lambda>d. Fin (of_int d)) [d + 1..days]"
      by blast
    have step: "simulateMultipleDays_loop d days N strat jobsPerDay results s
        = (Inr (results @ (r # rs)), s')"
      using True r rs by (subst simulateMultipleDays_loop.simps) simp
    have "map day (r # rs) = map (\<lambda>d. Fin (of_int d)) [d..days]"
      using dr days True by (simp add: upto_rec1[of d days])
    with step show ?thesis by blast
  qed
qed

lemma simulateMultipleDays_days:
  assumes k: "strat \<in> {''edf'', ''lcf'', ''random''}"
  shows "\<exists>rs s'. simulateMultipleDays days N strat jobsPerDay s = (Inr rs, s')
               \<and> map day rs = map (\<lambda>d. Fin (of_int d)) [1..days]"
  using simulateMultipleDays_loop_days[OF k, of 1 days N jobsPerDay "[]"]
  by (simp add: simulateMultipleDays_def)

lemma simulateMultipleDays_independent:
  "simulateMultipleDays days N strat jobsPerDay
      (s\<lparr>jobPool := p, jobIdCounter := c, computeHistory := h\<rparr>)
     = simulateMultipleDays days N strat jobsPerDay s"
  by (simp add: simulateMultipleDays_def resetJobPool_def)

text \<open>
  Claim C9. For \<open>days >= 1\<close>, \<open>compareStrategies\<close> returns exactly three entries, keyed
  \<open>'edf'\<close>, \<open>'lcf'\<close>, \<open>'random'\<close> in this order; each is the result of one
  \<open>simulateMultipleDays\<close> run, a list of exactly \<open>days\<close> day results with day numbers
  \<open>1..days\<close> in order. Every run starts its loop from the reset pool and history, so its
  outcome is the same whatever pool, id counter and history the previous run left.
\<close>

theorem compareStrategies_shape:
  assumes "1 \<le> days"
  shows "\<exists>r1 r2 r3 s1 s2 s3.
     compareStrategies days N jobs s = (Inr [(''edf'', r1), (''lcf'', r2), (''random'', r3)], s3)
   \<and> simulateMultipleDays days N ''edf'' jobs s = (Inr r1, s1)
   \<and> simulateMultipleDays days N ''lcf'' jobs s1 = (Inr r2, s2)
   \<and> simulateMultipleDays days N ''random'' jobs s2 = (Inr r3, s3)
   \<and> (\<forall>r \<in> {r1, r2, r3}. int (length r) = days \<and> map day r = map (\<lambda>d. Fin (of_int d)) [1..days])
   \<and> (\<forall>st s0. simulateMultipleDays days N st jobs s0
          = simulateMultipleDays_loop 1 days N st jobs [] (resetSimulation s0))
   \<and> (\<forall>st s0 p c h. simulateMultipleDays days N st jobs
            (s0\<lparr>jobPool := p, jobIdCounter := c, computeHistory := h\<rparr>)
          = simulateMultipleDays days N st jobs s0)"
proof -
  obtain r1 s1 where r1: "simulateMultipleDays days N ''edf'' jobs s = (Inr r1, s1)"
    and d1: "map day r1 = map (\<lambda>d. Fin (of_int d)) [1..days]"
    using simulateMultipleDays_days[of "''edf''" days N jobs s] by auto
  obtain r2 s2 where r2: "simulateMultipleDays days N ''lcf'' jobs s1 = (Inr r2, s2)"
    and d2: "map day r2 = map (\<lambda>d. Fin (of_int d)) [1..days]"
    using simulateMultipleDays_days[of "''lcf''" days N jobs s1] by auto
  obtain r3 s3 where r3: "simulateMultipleDays days N ''random'' jobs s2 = (Inr r3, s3)"
    and d3: "map day r3 = map (\<lambda>d. Fin (of_int d)) [1..days]"
    using simulateMultipleDays_days[of "''random''" days N jobs s2] by auto
  have len: "int (length r) = days" if "map day r = map (\<lambda>d. Fin (of_int d)) [1..days]" for r :: "simResult list"
  proof -
    have "length (map day r) = length (map (\<lambda>d. Fin (of_int d)) [1..days])"
      using that by simp
    then show ?thesis using assms by simp
  qed
  have cmp: "compareStrategies days N jobs s
      = (Inr [(''edf'', r1), (''lcf'', r2), (''random'', r3)], s3)"
    using r1 r2 r3 by (simp add: compareStrategies_def)
  have reset: "\<forall>st s0. simulateMultipleDays days N st jobs s0
          = simulateMultipleDays_loop 1 days N st jobs [] (resetSimulation s0)"
    by (simp add: simulateMultipleDays_def resetSimulation_def)
  show ?thesis
    using cmp r1 r2 r3 d1 d2 d3 len[OF d1] len[OF d2] len[OF d3] reset
      simulateMultipleDays_independent
    by (intro exI[of _ r1] exI[of _ r2] exI[of _ r3] exI[of _ s1] exI[of _ s2] exI[of _ s3])
       simp
qed

theorem compareStrategies_shape_witness:
  "(1::int) \<le> 2
   \<and> (\<exists>r1 r2 r3 s3.
        compareStrategies 2 5 5 fresh_state
          = (Inr [(''edf'', r1), (''lcf'', r2), (''random'', r3)], s3)
      \<and> map day r1 = [Fin 1, Fin 2] \<and> map day r2 = [Fin 1, Fin 2] \<and> map day r3 = [Fin 1, Fin 2]
      \<and> length r1 = 2 \<and> length r2 = 2 \<and> length r3 = 2)"
proof -
  have h: "(1::int) \<le> 2" by simp
  from compareStrategies_shape[OF h, of 5 5 fresh_state]
  obtain r1 r2 r3 s3 where
    c: "compareStrategies 2 5 5 fresh_state
          = (Inr [(''edf'', r1), (''lcf'', r2), (''random'', r3)], s3)"
    and d: "\<forall>r \<in> {r1, r2, r3}. int (length r) = 2 \<and> map day r = map (\<lambda>d. Fin (of_int d)) [1..2]"
    by blast
  have u: "map (\<lambda>d. Fin (of_int d)) [1..2] = [Fin 1, Fin 2]"
    by (simp add: upto_rec1)
  from d u have "map day r1 = [Fin 1, Fin 2] \<and> map day r2 = [Fin 1, Fin 2] \<and> map day r3 = [Fin 1, Fin 2]
      \<and> length r1 = 2 \<and> length r2 = 2 \<and> length r3 = 2"
    by simp
  with c h show ?thesis
    by (intro conjI exI[of _ r1] exI[of _ r2] exI[of _ r3] exI[of _ s3]) simp_all
qed

end
